theory Spec2Isabelle
  imports Main "HOL-Library.Word" "HOL-Library.Char_ord" "HOL-Library.List_Lexorder"
begin

unbundle bit_operations_syntax

section \<open>The parameter store (ParameterMap.cpp, ParameterMap.h)\<close>

subsection \<open>The shared map\<close>

text \<open>
  \<^verbatim>\<open>std::map<const std::string, const std::string>\<close>: entries are held in ascending key
  order, and \<^verbatim>\<open>insert\<close> leaves the map alone when the key is already there.
\<close>

type_synonym pmap = "(string \<times> string) list"

definition map_find :: "pmap \<Rightarrow> string \<Rightarrow> string option" where
  "map_find m k = map_of m k"

definition map_insert :: "pmap \<Rightarrow> string \<Rightarrow> string \<Rightarrow> pmap" where
  "map_insert m k v = (if map_find m k \<noteq> None then m else insort_key fst (k, v) m)"

definition map_erase :: "pmap \<Rightarrow> string \<Rightarrow> pmap" where
  "map_erase m k = filter (\<lambda>e. fst e \<noteq> k) m"

text \<open>\<^verbatim>\<open>operator[]\<close> used as a read: the value of the key, or the empty string.\<close>

definition map_at :: "pmap \<Rightarrow> string \<Rightarrow> string" where
  "map_at m k = (case map_find m k of None \<Rightarrow> [] | Some v \<Rightarrow> v)"

definition putOnMap :: "pmap \<Rightarrow> string \<Rightarrow> string \<Rightarrow> pmap" where
  "putOnMap m key val =
     map_insert (if map_find m key \<noteq> None then map_erase m key else m) key val"

definition SAFE_KEY_CHARS :: string where
  "SAFE_KEY_CHARS = ''0123456789_-abcdefghijklmnopqrstuvwxyzABCDEFGHIJKLMNOPQRSTUVWXYZ''"

text \<open>\<^verbatim>\<open>s.find(sub) != std::string::npos\<close>\<close>

fun str_contains :: "string \<Rightarrow> string \<Rightarrow> bool" where
  "str_contains [] sub = (sub = [])"
| "str_contains (c # cs) sub = (take (length sub) (c # cs) = sub \<or> str_contains cs sub)"

subsection \<open>Nodes\<close>

text \<open>
  A node holds its prefix, the two flags and its parent. The map itself is shared by all
  nodes of a hierarchy, so it lives in the \<open>store\<close>, which every operation takes and
  returns. \<open>commits\<close> counts how often \<^verbatim>\<open>commitChanges\<close> has run on the root node, which
  is where a persistence adapter overrides it.
\<close>

datatype ParameterMap =
  ParameterMap (prefix: string) (locked: bool) (changed: bool) (parent: "ParameterMap option")

record store =
  parameters :: pmap
  commits :: nat

definition set_changed :: "ParameterMap \<Rightarrow> bool \<Rightarrow> ParameterMap" where
  "set_changed n b = ParameterMap (prefix n) (locked n) b (parent n)"

fun commitChanges :: "ParameterMap \<Rightarrow> store \<Rightarrow> store" where
  "commitChanges (ParameterMap pfx l c None) st = st\<lparr>commits := Suc (commits st)\<rparr>"
| "commitChanges (ParameterMap pfx l c (Some p)) st = commitChanges p st"

text \<open>The tail shared by every writer: commit when unlocked, else mark the node dirty.\<close>

definition commit_or_mark :: "ParameterMap \<Rightarrow> store \<Rightarrow> ParameterMap \<times> store" where
  "commit_or_mark n st =
     (if \<not> locked n then (n, commitChanges n st) else (set_changed n True, st))"

definition get :: "ParameterMap \<Rightarrow> store \<Rightarrow> string \<Rightarrow> string \<Rightarrow> bool \<Rightarrow> string" where
  "get n st kname defaultValue strict =
     (let name = (if strict
                  then map (\<lambda>c. if c \<in> set SAFE_KEY_CHARS then c else CHR ''_'') kname
                  else kname)
      in case map_find (parameters st) (prefix n @ name) of
           None \<Rightarrow> defaultValue
         | Some v \<Rightarrow> v)"

definition set_p :: "ParameterMap \<Rightarrow> store \<Rightarrow> string \<Rightarrow> string \<Rightarrow> ParameterMap \<times> store" where
  "set_p n st kname val =
     commit_or_mark n (st\<lparr>parameters := putOnMap (parameters st) (prefix n @ kname) val\<rparr>)"


definition setDefault :: "ParameterMap \<Rightarrow> store \<Rightarrow> string \<Rightarrow> string \<Rightarrow> store" where
  "setDefault n st kname val =
     st\<lparr>parameters := map_insert (parameters st) (prefix n @ kname) val\<rparr>"

text \<open>
  \<^verbatim>\<open>ntos<T>\<close> and \<^verbatim>\<open>ston<T>\<close> come from CernVM/Utilities.h, which is not among the
  sources; they are parameters of the operations that call them.
\<close>

definition getNum :: "(string \<Rightarrow> int) \<Rightarrow> ParameterMap \<Rightarrow> store \<Rightarrow> string \<Rightarrow> int \<Rightarrow> int" where
  "getNum ston n st kname defaultValue =
     (case map_find (parameters st) (prefix n @ kname) of
        None \<Rightarrow> defaultValue
      | Some v \<Rightarrow> ston v)"

definition setNum :: "(int \<Rightarrow> string) \<Rightarrow> ParameterMap \<Rightarrow> store \<Rightarrow> string \<Rightarrow> int \<Rightarrow> ParameterMap \<times> store" where
  "setNum ntos n st kname val = set_p n st kname (ntos val)"

definition setBool :: "ParameterMap \<Rightarrow> store \<Rightarrow> string \<Rightarrow> bool \<Rightarrow> ParameterMap \<times> store" where
  "setBool n st name val = set_p n st name (if val then ''y'' else ''n'')"

definition getBool :: "ParameterMap \<Rightarrow> store \<Rightarrow> string \<Rightarrow> bool \<Rightarrow> bool" where
  "getBool n st name defaultValue =
     (case get n st name [] False of
        [] \<Rightarrow> defaultValue
      | c # _ \<Rightarrow> c = CHR ''y'' \<or> c = CHR ''t'' \<or> c = CHR ''1'')"

definition lock :: "ParameterMap \<Rightarrow> ParameterMap" where
  "lock n = ParameterMap (prefix n) True False (parent n)"

definition unlock :: "ParameterMap \<Rightarrow> store \<Rightarrow> ParameterMap \<times> store" where
  "unlock n st =
     (let n' = ParameterMap (prefix n) False (changed n) (parent n)
      in (n', if changed n' then commitChanges n' st else st))"

text \<open>
  \<^verbatim>\<open>PMAP_GROUP_SEPARATOR\<close> is defined in CernVM/Config.h, which is not among the sources;
  it is the parameter \<open>sep\<close>.
\<close>

definition subgroup :: "string \<Rightarrow> ParameterMap \<Rightarrow> string \<Rightarrow> ParameterMap" where
  "subgroup sep n kname = ParameterMap (prefix n @ kname @ sep) False False (Some n)"

definition visible :: "string \<Rightarrow> ParameterMap \<Rightarrow> string \<Rightarrow> bool" where
  "visible sep n key =
     (take (length (prefix n)) key = prefix n \<and>
      \<not> str_contains (drop (length (prefix n)) key) sep)"

definition enumKeys :: "string \<Rightarrow> ParameterMap \<Rightarrow> store \<Rightarrow> string list" where
  "enumKeys sep n st =
     map (drop (length (prefix n))) (filter (visible sep n) (map fst (parameters st)))"

definition contains :: "ParameterMap \<Rightarrow> store \<Rightarrow> string \<Rightarrow> bool \<Rightarrow> bool" where
  "contains n st name useBlank =
     (let ans = (map_find (parameters st) (prefix n @ name) \<noteq> None)
      in if ans \<and> useBlank then map_at (parameters st) (prefix n @ name) \<noteq> [] else ans)"

definition clear :: "string \<Rightarrow> ParameterMap \<Rightarrow> store \<Rightarrow> store" where
  "clear sep n st =
     st\<lparr>parameters := foldl (\<lambda>m k. map_erase m (prefix n @ k)) (parameters st) (enumKeys sep n st)\<rparr>"

definition clearAll :: "store \<Rightarrow> store" where
  "clearAll st = st\<lparr>parameters := []\<rparr>"


text \<open>One step of the loops of \<^verbatim>\<open>fromMap\<close> and \<^verbatim>\<open>fromParameters\<close>.\<close>

definition import_entry :: "bool \<Rightarrow> pmap \<Rightarrow> string \<Rightarrow> string \<Rightarrow> pmap" where
  "import_entry replace m k v =
     (if replace \<or> map_find m k = None then putOnMap m k v else m)"

text \<open>The map argument is a pointer; \<open>None\<close> is \<^verbatim>\<open>NULL\<close>.\<close>

definition fromMap ::
  "string \<Rightarrow> ParameterMap \<Rightarrow> store \<Rightarrow> pmap option \<Rightarrow> bool \<Rightarrow> bool \<Rightarrow> ParameterMap \<times> store" where
  "fromMap sep n st mp clearBefore replace =
     (let st1 = (if clearBefore then clear sep n st else st)
      in case mp of
           None \<Rightarrow> (n, st1)
         | Some m \<Rightarrow>
             commit_or_mark n
               (st1\<lparr>parameters :=
                  foldl (\<lambda>ps e. import_entry replace ps (prefix n @ fst e) (snd e))
                    (parameters st1) m\<rparr>))"


definition toMap :: "string \<Rightarrow> ParameterMap \<Rightarrow> store \<Rightarrow> pmap \<Rightarrow> bool \<Rightarrow> pmap" where
  "toMap sep n st target clearBefore =
     foldl (\<lambda>m k. map_insert m k (map_at (parameters st) (prefix n @ k)))
       (if clearBefore then [] else target) (enumKeys sep n st)"

text \<open>The default constructor of a node: a map of its own, no prefix, no parent.\<close>

definition instance_node :: ParameterMap where
  "instance_node = ParameterMap [] False False None"

definition instance_store :: store where
  "instance_store = \<lparr>parameters = [], commits = 0\<rparr>"

subsection \<open>JSON import\<close>

text \<open>
  A \<^verbatim>\<open>Json::Value\<close> as the importer tells its kinds apart: an object with its members
  (each name once), a string, a value for which \<^verbatim>\<open>isInt()\<close> holds, and everything else.
\<close>

datatype json = JObject "(string \<times> json) list" | JString string | JInt int | JOther

text \<open>
  The loop of \<^verbatim>\<open>fromJSON\<close> over the members of the object. The leaf branches look the
  key up and store it as \<open>k\<close>, the bare member name. The object branch runs the whole of
  \<^verbatim>\<open>fromJSON\<close> on the subgroup with the default flags (no clearing, replace), which ends
  with the subgroup's own commit.
\<close>

function fromJSON_members ::
  "string \<Rightarrow> (int \<Rightarrow> string) \<Rightarrow> ParameterMap \<Rightarrow> bool \<Rightarrow> (string \<times> json) list \<Rightarrow> store \<Rightarrow> store" where
  "fromJSON_members sep ntos n replace [] st = st"
| "fromJSON_members sep ntos n replace ((k, JObject ms) # rest) st =
     fromJSON_members sep ntos n replace rest
       (snd (commit_or_mark (subgroup sep n k)
               (fromJSON_members sep ntos (subgroup sep n k) True ms st)))"
| "fromJSON_members sep ntos n replace ((k, JString s) # rest) st =
     fromJSON_members sep ntos n replace rest
       (st\<lparr>parameters := import_entry replace (parameters st) k s\<rparr>)"
| "fromJSON_members sep ntos n replace ((k, JInt vv) # rest) st =
     fromJSON_members sep ntos n replace rest
       (st\<lparr>parameters := import_entry replace (parameters st) k (ntos vv)\<rparr>)"
| "fromJSON_members sep ntos n replace ((k, JOther) # rest) st =
     fromJSON_members sep ntos n replace rest st"
  by pat_completeness auto
termination
  by (relation "measure (\<lambda>(sep, ntos, n, replace, ms, st). size_list (size_prod (\<lambda>_. 0) size) ms)")
     auto

definition fromJSON ::
  "string \<Rightarrow> (int \<Rightarrow> string) \<Rightarrow> ParameterMap \<Rightarrow> store \<Rightarrow> (string \<times> json) list \<Rightarrow> bool \<Rightarrow> bool
     \<Rightarrow> ParameterMap \<times> store" where
  "fromJSON sep ntos n st members clearBefore replace =
     commit_or_mark n
       (fromJSON_members sep ntos n replace members (if clearBefore then clear sep n st else st))"

subsection \<open>A batch of writes under the lock\<close>

datatype write_op = WSet string string | WSetNum string int | WSetBool string bool

fun do_write :: "(int \<Rightarrow> string) \<Rightarrow> ParameterMap \<times> store \<Rightarrow> write_op \<Rightarrow> ParameterMap \<times> store" where
  "do_write ntos (n, st) (WSet k v) = set_p n st k v"
| "do_write ntos (n, st) (WSetNum k i) = setNum ntos n st k i"
| "do_write ntos (n, st) (WSetBool k b) = setBool n st k b"

definition do_writes :: "(int \<Rightarrow> string) \<Rightarrow> ParameterMap \<times> store \<Rightarrow> write_op list \<Rightarrow> ParameterMap \<times> store" where
  "do_writes ntos ns ws = foldl (do_write ntos) ns ws"

text \<open>\<^verbatim>\<open>lock()\<close>, the writes, \<^verbatim>\<open>unlock()\<close>.\<close>

definition locked_batch :: "(int \<Rightarrow> string) \<Rightarrow> ParameterMap \<Rightarrow> store \<Rightarrow> write_op list \<Rightarrow> ParameterMap \<times> store" where
  "locked_batch ntos n st ws =
     (let (n', st') = do_writes ntos (lock n, st) ws in unlock n' st')"

subsection \<open>Export and re-import\<close>

text \<open>
  \<^verbatim>\<open>toMap\<close> of a node into an empty map, then \<^verbatim>\<open>fromMap\<close> of that map, with
  \<^verbatim>\<open>replace\<close> set, into a new node with the same prefix on a map of its own.
\<close>

definition roundtrip :: "string \<Rightarrow> ParameterMap \<Rightarrow> store \<Rightarrow> ParameterMap \<times> store" where
  "roundtrip sep n st =
     fromMap sep (ParameterMap (prefix n) False False None) instance_store
       (Some (toMap sep n st [] False)) False True"

section \<open>The session constructor (Hypervisor.h)\<close>

record hv_session =
  uuid :: string
  state :: int
  pid :: int
  internalID :: int
  instances :: int

text \<open>
  The defaults of the constructor, in its order. \<^verbatim>\<open>DEFAULT_API_PORT\<close> and
  \<^verbatim>\<open>DEFAULT_CERNVM_VERSION\<close> are macros of CernVM/Config.h, which is not among the
  sources; they are the parameters \<open>api_port\<close> and \<open>cernvm_version\<close>.
\<close>

definition session_defaults :: "string \<Rightarrow> string \<Rightarrow> (string \<times> string) list" where
  "session_defaults api_port cernvm_version =
     [(''initialized'', ''0''), (''cpus'', ''1''), (''memory'', ''512''), (''disk'', ''1024''),
      (''executionCap'', ''100''), (''apiPort'', api_port), (''flags'', ''0''),
      (''daemonControlled'', ''0''), (''daemonMinCap'', ''0''), (''daemonMaxCap'', ''0''),
      (''daemonFlags'', ''0''), (''uuid'', []), (''ip'', []), (''secret'', []),
      (''name'', []), (''diskURL'', []), (''diskChecksum'', []),
      (''cernvmVersion'', cernvm_version)]"

definition HVSession ::
  "string \<Rightarrow> string \<Rightarrow> (string \<Rightarrow> int) \<Rightarrow> ParameterMap \<Rightarrow> store \<Rightarrow> hv_session \<times> store" where
  "HVSession api_port cernvm_version ston param st =
     (let st' = foldl (\<lambda>s e. setDefault param s (fst e) (snd e)) st
                  (session_defaults api_port cernvm_version)
      in (\<lparr>uuid = get param st' ''uuid'' [] False,
           state = getNum ston param st' ''state'' 0,
           pid = 0, internalID = 0, instances = 0\<rparr>, st'))"

section \<open>The download provider (DownloadProvider.cpp)\<close>













section \<open>The context image builders (contextiso.cpp)\<close>

type_synonym byte = "8 word"

definition bytes_of :: "string \<Rightarrow> byte list" where
  "bytes_of s = map of_char s"

definition CONTEXTISO_CDROM_SIZE :: int where "CONTEXTISO_CDROM_SIZE = 358400"

definition LIBCONTEXTISO_APP :: string where
  "LIBCONTEXTISO_APP =
     ''LIBCONTEXTISO - A TINY ISO 9660-COMPATIBLE FILESYSTEM CREATOR LIBRARY (C) 2012  I.CHARALAMPIDIS'' @
     replicate 33 (CHR '' '')"

definition PRIMARY_DESCRIPTOR_OFFSET :: int where "PRIMARY_DESCRIPTOR_OFFSET = 0x8000"
definition SECONDARY_DIRECTORY_RECORD_OFFSET :: int where "SECONDARY_DIRECTORY_RECORD_OFFSET = 0xB800"
definition CONTENTS_OFFSET :: int where "CONTENTS_OFFSET = 0xC000"
definition README_CONTENT_OFFSET :: int where "README_CONTENT_OFFSET = 0xE000"
definition EC_META_CONTENT_OFFSET :: int where "EC_META_CONTENT_OFFSET = 0xE800"
definition EC_USER_CONTENT_OFFSET :: int where "EC_USER_CONTENT_OFFSET = 0xF000"
definition OS_META_CONTENT_OFFSET :: int where "OS_META_CONTENT_OFFSET = 0xF800"
definition OS_USER_CONTENT_OFFSET :: int where "OS_USER_CONTENT_OFFSET = 0x10000"

definition README_CONTENT :: string where
  "README_CONTENT =
     ''We support two ways of contextualization: through amiconfig and cloud init.'' @ [CHR 0x0A] @
     ''Amiconfig and cloud-init pick up the (same) user-data from different paths.'' @ [CHR 0x0A] @
     [CHR 0x0A] @
     ''Amiconfig:'' @ [CHR 0x0A] @
     ''Amiconfig data are put (in the plaintext format) to the '' @ [CHR 0x22] @ ''/ec2/latest/user-data'' @ [CHR 0x22] @ '' file.'' @ [CHR 0x0A] @
     [CHR 0x22] @ ''ec2/latest/meta-data.json'' @ [CHR 0x22] @ '' contains only an empty dictionary.'' @ [CHR 0x0A] @
     [CHR 0x0A] @
     ''Cloud init:'' @ [CHR 0x0A] @
     ''Cloud init data are put (in the plaintext format) to the '' @ [CHR 0x22] @ ''/openstack/latest/user_data'' @ [CHR 0x22] @ '' file.'' @ [CHR 0x0A] @
     [CHR 0x22] @ ''/openstack/latest/meta_data.json'' @ [CHR 0x22] @ '' contains only an empty dictionary.'' @ [CHR 0x0A]"

definition META_DATA_CONTENT :: string where
  "META_DATA_CONTENT =
     ''{'' @ [CHR 0x0A] @
     ''    '' @ [CHR 0x22] @ ''uuid'' @ [CHR 0x22] @ '': '' @ [CHR 0x22] @ ''83679162-1378-4288-a2d4-70e13ec132aa'' @ [CHR 0x22] @ [CHR 0x0A] @
     ''}'' @ [CHR 0x0A]"

definition dateZero :: "byte list" where
  "dateZero = replicate 17 0x30"

text \<open>The eight bytes that \<^verbatim>\<open>isosetl\<close> stores, in the order of the buffer.\<close>

definition isosetl :: "int \<Rightarrow> byte list" where
  "isosetl x =
     [word_of_int (x AND 0xFF),
      word_of_int (drop_bit 8 x AND 0xFF),
      word_of_int (drop_bit 16 x AND 0xFF),
      word_of_int (drop_bit 24 x AND 0xFF),
      word_of_int (drop_bit 24 x AND 0xFF),
      word_of_int (drop_bit 16 x AND 0xFF),
      word_of_int (drop_bit 8 x AND 0xFF),
      word_of_int (x AND 0xFF)]"

text \<open>
  The value that an eight-byte field of the image records, read as the format lays it
  out: four bytes little-endian followed by four bytes big-endian of the same value.
\<close>

definition le32 :: "byte list \<Rightarrow> int" where
  "le32 bs = uint (bs ! 0) + 256 * uint (bs ! 1) + 65536 * uint (bs ! 2) + 16777216 * uint (bs ! 3)"

definition be32 :: "byte list \<Rightarrow> int" where
  "be32 bs = 16777216 * uint (bs ! 0) + 65536 * uint (bs ! 1) + 256 * uint (bs ! 2) + uint (bs ! 3)"

definition both_endian :: "byte list \<Rightarrow> int option" where
  "both_endian bs =
     (if length bs = 8 \<and> le32 (take 4 bs) = be32 (drop 4 bs) then Some (le32 (take 4 bs))
      else None)"

subsection \<open>The date\<close>

text \<open>
  The fields of \<^verbatim>\<open>struct tm\<close> that the builders print, as \<^verbatim>\<open>gmtime\<close> fills them:
  \<open>tm_year\<close> counts the years from 1900 and \<open>tm_mon\<close> the months from January, which is 0.
\<close>

record tm =
  tm_year :: int
  tm_mon :: int
  tm_mday :: int
  tm_hour :: int
  tm_min :: int
  tm_sec :: int

fun dec :: "nat \<Rightarrow> string" where
  "dec n = (if n < 10 then [char_of (48 + n)] else dec (n div 10) @ [char_of (48 + n mod 10)])"

declare dec.simps [simp del]

text \<open>\<^verbatim>\<open>%0wu\<close> of an \<^verbatim>\<open>int\<close> argument: read as unsigned, at least \<open>w\<close> digits.\<close>

definition fmt_u :: "nat \<Rightarrow> int \<Rightarrow> string" where
  "fmt_u w x =
     (let ds = dec (nat (x mod 2 ^ 32)) in replicate (w - length ds) (CHR ''0'') @ ds)"

definition dateNow :: "tm \<Rightarrow> string" where
  "dateNow tmNow =
     fmt_u 4 (tm_year tmNow + 1900) @ fmt_u 2 (tm_mon tmNow) @ fmt_u 2 (tm_mday tmNow) @
     fmt_u 2 (tm_hour tmNow) @ fmt_u 2 (tm_min tmNow) @ fmt_u 2 (tm_sec tmNow) @ ''000''"

subsection \<open>The primary descriptor\<close>

text \<open>
  \<^verbatim>\<open>iso_primary_descriptor\<close> is declared in iso9660.h, which is not among the sources.
  The record holds the fields that the builders assign after copying the template; the
  rest of the structure is the template's.
\<close>

record iso_primary_descriptor =
  volume_id :: "byte list"
  volume_space_size :: "byte list"
  application_id :: "byte list"
  creation_date :: "byte list"
  modification_date :: "byte list"
  effective_date :: "byte list"
  expiration_date :: "byte list"

text \<open>Conversion of a \<^verbatim>\<open>size_t\<close> sum to \<^verbatim>\<open>int\<close>, and the division of C.\<close>

definition to_int :: "int \<Rightarrow> int" where
  "to_int x = signed_take_bit 31 x"

definition c_div :: "int \<Rightarrow> int \<Rightarrow> int" where
  "c_div a b = sgn a * sgn b * (\<bar>a\<bar> div \<bar>b\<bar>)"

definition lVolSize :: "int \<Rightarrow> int" where
  "lVolSize lDataSize = 1 + c_div (lDataSize - 1) 2048"

definition descPrimary :: "tm \<Rightarrow> string \<Rightarrow> int \<Rightarrow> iso_primary_descriptor" where
  "descPrimary tmNow vol lDataSize =
     \<lparr>volume_id = take 31 (bytes_of vol @ replicate 31 0x20),
      volume_space_size = isosetl (lVolSize lDataSize),
      application_id = take 127 (bytes_of LIBCONTEXTISO_APP),
      creation_date = take 17 (bytes_of (dateNow tmNow)),
      modification_date = take 17 (bytes_of (dateNow tmNow)),
      effective_date = take 17 (bytes_of (dateNow tmNow)),
      expiration_date = dateZero\<rparr>"

subsection \<open>The buffer\<close>

text \<open>
  The static buffer \<^verbatim>\<open>bytes\<close> is a store from offsets to bytes. A copy that would leave
  the buffer, or read past its source, is undefined in C; here it is an error value that
  names the offset and the count.
\<close>

datatype error =
  BufferOverrun int int | SourceOverrun int int | RecordOverrun int | SignedOverflow | DateOverrun

definition memcpy :: "(int \<Rightarrow> byte) \<Rightarrow> int \<Rightarrow> byte list \<Rightarrow> int \<Rightarrow> error + (int \<Rightarrow> byte)" where
  "memcpy bytes off src n =
     (if n < 0 \<or> off < 0 \<or> CONTEXTISO_CDROM_SIZE < off + n then Inl (BufferOverrun off n)
      else if int (length src) < n then Inl (SourceOverrun off n)
      else Inr (\<lambda>i. if off \<le> i \<and> i < off + n then src ! nat (i - off) else bytes i))"

fun memcpy_all :: "(int \<Rightarrow> byte) \<Rightarrow> (int \<times> byte list \<times> int) list \<Rightarrow> error + (int \<Rightarrow> byte)" where
  "memcpy_all bytes [] = Inr bytes"
| "memcpy_all bytes ((off, src, n) # ws) =
     (case memcpy bytes off src n of
        Inl e \<Rightarrow> Inl e
      | Inr bytes' \<Rightarrow> memcpy_all bytes' ws)"

definition region :: "(int \<Rightarrow> byte) \<Rightarrow> int \<Rightarrow> nat \<Rightarrow> byte list" where
  "region bytes off n = map (\<lambda>j. bytes (off + int j)) [0..<n]"

text \<open>
  The built image: the primary descriptor, which the builders copy to \<open>0x8000\<close>, and the
  buffer around it.
\<close>

record cdrom =
  primary :: iso_primary_descriptor
  bytes :: "int \<Rightarrow> byte"

text \<open>
  The tables and offsets of iso9660.h, which is not among the sources: they are the
  fields of a record that both builders take. A table's \<^verbatim>\<open>_SIZE\<close> is its length.
\<close>

record iso9660_h =
  ISO9660_AT_8800 :: "byte list"
  AT_9800 :: "byte list"
  AT_A800 :: "byte list"
  AT_B800 :: "byte list"
  AT_C000 :: "byte list"
  AT_C800 :: "byte list"
  AT_D000 :: "byte list"
  AT_D800 :: "byte list"
  AT_D800_META_EXTENT_OFFSET :: int
  AT_D800_USER_EXTENT_OFFSET :: int
  AT_B800_README_SIZE_OFFSET :: int
  AT_C800_META_DATA_SIZE_OFFSET :: int
  AT_C800_USER_DATA_SIZE_OFFSET :: int
  AT_D800_META_DATA_SIZE_OFFSET :: int
  AT_D800_USER_DATA_SIZE_OFFSET :: int
  ISO9660_AT_9800 :: "byte list"
  ISO9660_AT_A800 :: "byte list"
  ISO9660_CONTEXT_SH_STRUCT :: "byte list"
  sizeof_iso_directory_record :: int
  offsetof_size :: int
  offsetof_name :: int

subsection \<open>The dual-payload builder\<close>

text \<open>\<^verbatim>\<open>while (x % 2048) ++x;\<close>\<close>

function align2k :: "int \<Rightarrow> int" where
  "align2k x = (if x mod 2048 \<noteq> 0 then align2k (x + 1) else x)"
  by pat_completeness auto
termination
proof (relation "measure (\<lambda>x. nat ((- x) mod 2048))")
  show "wf (measure (\<lambda>x::int. nat ((- x) mod 2048)))"
    by simp
next
  fix x :: int
  assume nz: "x mod 2048 \<noteq> 0"
  have step: "(x + 1) mod 2048 = (x mod 2048 + 1) mod 2048"
    by (simp add: mod_add_left_eq)
  have bounds: "0 \<le> x mod 2048" "x mod 2048 < 2048"
    by simp_all
  have "(x + 1) mod 2048 \<noteq> 0 \<Longrightarrow> x mod 2048 < (x + 1) mod 2048"
  proof (cases "x mod 2048 + 1 < 2048")
    case True
    with bounds step show ?thesis by simp
  next
    case False
    with bounds have "x mod 2048 + 1 = 2048" by linarith
    with step have "(x + 1) mod 2048 = 0" by simp
    then show "(x + 1) mod 2048 \<noteq> 0 \<Longrightarrow> x mod 2048 < (x + 1) mod 2048" by simp
  qed
  with nz show "(x + 1, x) \<in> measure (\<lambda>x. nat ((- x) mod 2048))"
    by (simp add: zmod_zminus1_eq_if)
qed

declare align2k.simps [simp del]

definition metaDataContentSize :: int where
  "metaDataContentSize = int (length META_DATA_CONTENT)"

definition readmeSize :: int where
  "readmeSize = int (length README_CONTENT)"

text \<open>The two offsets of the second convention after the relocation test.\<close>

definition osMetaOffset :: "int \<Rightarrow> int" where
  "osMetaOffset contentSize =
     (if EC_USER_CONTENT_OFFSET + contentSize \<ge> OS_META_CONTENT_OFFSET
      then align2k (EC_USER_CONTENT_OFFSET + contentSize + 1)
      else OS_META_CONTENT_OFFSET)"

definition osUserOffset :: "int \<Rightarrow> int" where
  "osUserOffset contentSize =
     (if EC_USER_CONTENT_OFFSET + contentSize \<ge> OS_META_CONTENT_OFFSET
      then align2k (osMetaOffset contentSize + metaDataContentSize + 1)
      else OS_USER_CONTENT_OFFSET)"

definition ami_lDataSize :: "int \<Rightarrow> int" where
  "ami_lDataSize contentSize =
     (let lDataSize = to_int (2 * contentSize + 2 * metaDataContentSize + readmeSize)
      in if lDataSize > CONTEXTISO_CDROM_SIZE - CONTENTS_OFFSET
         then CONTEXTISO_CDROM_SIZE - CONTENTS_OFFSET
         else lDataSize)"

text \<open>The copies into the buffer, in the order of the source.\<close>

definition template_writes :: "iso9660_h \<Rightarrow> (int \<times> byte list \<times> int) list" where
  "template_writes h =
     [(0x8800, ISO9660_AT_8800 h, int (length (ISO9660_AT_8800 h))),
      (0x9800, AT_9800 h, int (length (AT_9800 h))),
      (0xA800, AT_A800 h, int (length (AT_A800 h))),
      (0xB800, AT_B800 h, int (length (AT_B800 h))),
      (0xC000, AT_C000 h, int (length (AT_C000 h))),
      (0xC800, AT_C800 h, int (length (AT_C800 h))),
      (0xD000, AT_D000 h, int (length (AT_D000 h))),
      (0xD800, AT_D800 h, int (length (AT_D800 h)))]"

definition extent_writes :: "iso9660_h \<Rightarrow> int \<Rightarrow> (int \<times> byte list \<times> int) list" where
  "extent_writes h contentSize =
     (if EC_USER_CONTENT_OFFSET + contentSize \<ge> OS_META_CONTENT_OFFSET
      then [(0xD800 + AT_D800_META_EXTENT_OFFSET h, isosetl (c_div (osMetaOffset contentSize) 2048), 8),
            (0xD800 + AT_D800_USER_EXTENT_OFFSET h, isosetl (c_div (osUserOffset contentSize) 2048), 8)]
      else [])"

definition content_writes :: "byte list \<Rightarrow> int \<Rightarrow> (int \<times> byte list \<times> int) list" where
  "content_writes content contentSize =
     [(README_CONTENT_OFFSET, bytes_of README_CONTENT, readmeSize),
      (EC_META_CONTENT_OFFSET, bytes_of META_DATA_CONTENT, metaDataContentSize),
      (EC_USER_CONTENT_OFFSET, content, contentSize),
      (osMetaOffset contentSize, bytes_of META_DATA_CONTENT, metaDataContentSize),
      (osUserOffset contentSize, content, contentSize)]"

definition size_writes :: "iso9660_h \<Rightarrow> int \<Rightarrow> (int \<times> byte list \<times> int) list" where
  "size_writes h contentSize =
     [(0xB800 + AT_B800_README_SIZE_OFFSET h, isosetl readmeSize, 8),
      (0xC800 + AT_C800_META_DATA_SIZE_OFFSET h, isosetl metaDataContentSize, 8),
      (0xC800 + AT_C800_USER_DATA_SIZE_OFFSET h, isosetl contentSize, 8),
      (0xD800 + AT_D800_META_DATA_SIZE_OFFSET h, isosetl metaDataContentSize, 8),
      (0xD800 + AT_D800_USER_DATA_SIZE_OFFSET h, isosetl contentSize, 8)]"

text \<open>
  \<open>tmNow\<close> is what \<^verbatim>\<open>gmtime\<close> returned for the time of the call. \<^verbatim>\<open>2*contentSize\<close> is
  computed in \<^verbatim>\<open>int\<close>; leaving its range is undefined and is an error value here.
\<close>

definition build_ami_ci_cdrom ::
  "iso9660_h \<Rightarrow> tm \<Rightarrow> string \<Rightarrow> byte list \<Rightarrow> int \<Rightarrow> error + cdrom" where
  "build_ami_ci_cdrom h tmNow vol content contentSize =
     (if 17 < length (dateNow tmNow) then Inl DateOverrun
      else if 2 * contentSize < - (2 ^ 31) \<or> 2 ^ 31 \<le> 2 * contentSize then Inl SignedOverflow
      else
        case memcpy_all (\<lambda>_. 0)
               (template_writes h @ extent_writes h contentSize @
                content_writes content contentSize @ size_writes h contentSize) of
          Inl e \<Rightarrow> Inl e
        | Inr b \<Rightarrow>
            Inr \<lparr>primary = descPrimary tmNow vol (ami_lDataSize contentSize), bytes = b\<rparr>)"

subsection \<open>The single-file builder\<close>

definition toupper :: "char \<Rightarrow> char" where
  "toupper c = (if CHR ''a'' \<le> c \<and> c \<le> CHR ''z'' then char_of (of_char c - (32 :: nat)) else c)"

definition file_name :: "string \<Rightarrow> string" where
  "file_name filename =
     map (\<lambda>c. if toupper c = CHR '' '' then CHR ''_'' else toupper c) (take 10 filename) @ '';1''"

text \<open>A store into the local record \<^verbatim>\<open>descFile\<close>, which must stay inside it.\<close>

definition poke :: "byte list \<Rightarrow> nat \<Rightarrow> byte list \<Rightarrow> error + byte list" where
  "poke rec off src =
     (if off + length src \<le> length rec
      then Inr (take off rec @ src @ drop (off + length src) rec)
      else Inl (RecordOverrun (int off)))"

definition descFile :: "iso9660_h \<Rightarrow> string \<Rightarrow> int \<Rightarrow> error + byte list" where
  "descFile h filename lDataSize =
     (let sz = nat (sizeof_iso_directory_record h)
      in if length (ISO9660_CONTEXT_SH_STRUCT h) < 0x44 + sz
         then Inl (SourceOverrun 0x44 (int sz))
         else
           case poke (take sz (drop 0x44 (ISO9660_CONTEXT_SH_STRUCT h)))
                  (nat (offsetof_size h)) (isosetl lDataSize) of
             Inl e \<Rightarrow> Inl e
           | Inr d \<Rightarrow> poke d (nat (offsetof_name h)) (bytes_of (file_name filename)))"

definition simple_lDataSize :: "int \<Rightarrow> int" where
  "simple_lDataSize sz =
     (if sz > CONTEXTISO_CDROM_SIZE - CONTENTS_OFFSET
      then CONTEXTISO_CDROM_SIZE - CONTENTS_OFFSET
      else sz)"

definition build_simple_cdrom ::
  "iso9660_h \<Rightarrow> tm \<Rightarrow> string \<Rightarrow> string \<Rightarrow> byte list \<Rightarrow> int \<Rightarrow> error + cdrom" where
  "build_simple_cdrom h tmNow vol filename buffer sz =
     (if 17 < length (dateNow tmNow) then Inl DateOverrun
      else if simple_lDataSize sz - 1 < - (2 ^ 31) then Inl SignedOverflow
      else
        case descFile h filename (simple_lDataSize sz) of
          Inl e \<Rightarrow> Inl e
        | Inr d \<Rightarrow>
            (case memcpy_all (\<lambda>_. 0)
                    [(0x8800, ISO9660_AT_8800 h, int (length (ISO9660_AT_8800 h))),
                     (0x9800, ISO9660_AT_9800 h, int (length (ISO9660_AT_9800 h))),
                     (0xA800, ISO9660_AT_A800 h, int (length (ISO9660_AT_A800 h))),
                     (SECONDARY_DIRECTORY_RECORD_OFFSET, ISO9660_CONTEXT_SH_STRUCT h,
                        int (length (ISO9660_CONTEXT_SH_STRUCT h))),
                     (SECONDARY_DIRECTORY_RECORD_OFFSET + 68, d, sizeof_iso_directory_record h),
                     (CONTENTS_OFFSET, buffer, simple_lDataSize sz)] of
               Inl e \<Rightarrow> Inl e
             | Inr b \<Rightarrow>
                 Inr \<lparr>primary = descPrimary tmNow vol (simple_lDataSize sz), bytes = b\<rparr>))"

subsection \<open>A header to run the builders on\<close>

text \<open>
  The fields of a directory record lie where ISO 9660 puts them (extent at 2, size at 10,
  name at 33); the tables are blank. Each directory table holds its file records from
  offset 68 on.
\<close>

definition blank_iso9660_h :: iso9660_h where
  "blank_iso9660_h =
     \<lparr>ISO9660_AT_8800 = replicate 64 0,
      AT_9800 = replicate 64 0,
      AT_A800 = replicate 64 0,
      AT_B800 = replicate 256 0,
      AT_C000 = replicate 256 0,
      AT_C800 = replicate 256 0,
      AT_D000 = replicate 256 0,
      AT_D800 = replicate 256 0,
      AT_D800_META_EXTENT_OFFSET = 70,
      AT_D800_USER_EXTENT_OFFSET = 120,
      AT_B800_README_SIZE_OFFSET = 78,
      AT_C800_META_DATA_SIZE_OFFSET = 78,
      AT_C800_USER_DATA_SIZE_OFFSET = 128,
      AT_D800_META_DATA_SIZE_OFFSET = 78,
      AT_D800_USER_DATA_SIZE_OFFSET = 128,
      ISO9660_AT_9800 = replicate 64 0,
      ISO9660_AT_A800 = replicate 64 0,
      ISO9660_CONTEXT_SH_STRUCT = replicate 128 0,
      sizeof_iso_directory_record = 60,
      offsetof_size = 10,
      offsetof_name = 33\<rparr>"

text \<open>
  What the builder relies on in the header: each field it patches lies inside its table,
  each table fits its 2048-byte sector, and the two extent fields of the last table are
  apart from each other and from the two size fields there.
\<close>

definition field_in :: "int \<Rightarrow> byte list \<Rightarrow> bool" where
  "field_in off table = (0 \<le> off \<and> off + 8 \<le> int (length table) \<and> length table \<le> 2048)"

definition apart :: "int \<Rightarrow> int \<Rightarrow> bool" where
  "apart a b = (a + 8 \<le> b \<or> b + 8 \<le> a)"

definition layout_ok :: "iso9660_h \<Rightarrow> bool" where
  "layout_ok h =
     (field_in (AT_D800_META_EXTENT_OFFSET h) (AT_D800 h) \<and>
      field_in (AT_D800_USER_EXTENT_OFFSET h) (AT_D800 h) \<and>
      field_in (AT_D800_META_DATA_SIZE_OFFSET h) (AT_D800 h) \<and>
      field_in (AT_D800_USER_DATA_SIZE_OFFSET h) (AT_D800 h) \<and>
      field_in (AT_B800_README_SIZE_OFFSET h) (AT_B800 h) \<and>
      field_in (AT_C800_META_DATA_SIZE_OFFSET h) (AT_C800 h) \<and>
      field_in (AT_C800_USER_DATA_SIZE_OFFSET h) (AT_C800 h) \<and>
      apart (AT_D800_META_EXTENT_OFFSET h) (AT_D800_USER_EXTENT_OFFSET h) \<and>
      apart (AT_D800_META_EXTENT_OFFSET h) (AT_D800_META_DATA_SIZE_OFFSET h) \<and>
      apart (AT_D800_META_EXTENT_OFFSET h) (AT_D800_USER_DATA_SIZE_OFFSET h) \<and>
      apart (AT_D800_USER_EXTENT_OFFSET h) (AT_D800_META_DATA_SIZE_OFFSET h) \<and>
      apart (AT_D800_USER_EXTENT_OFFSET h) (AT_D800_USER_DATA_SIZE_OFFSET h))"

section \<open>Facts\<close>

subsection \<open>Facts about the shared map\<close>

lemma map_of_insort_key: "map_of (insort_key fst (k, v) m) = (map_of m)(k \<mapsto> v)"
  by (induction m) (auto simp: fun_upd_twist)

lemma map_find_erase: "map_find (map_erase m k) = (map_find m)(k := None)"
  unfolding map_find_def map_erase_def by (induction m) auto

lemma map_find_insert:
  "map_find (map_insert m k v) = (if map_find m k = None then (map_find m)(k \<mapsto> v) else map_find m)"
  unfolding map_find_def map_insert_def by (auto simp: map_of_insort_key map_find_def)

lemma map_find_putOnMap: "map_find (putOnMap m k v) = (map_find m)(k \<mapsto> v)"
  by (auto simp: putOnMap_def map_find_insert map_find_erase)

lemma commits_commitChanges: "commits (commitChanges n st) = Suc (commits st)"
  by (induction n st rule: commitChanges.induct) simp_all

lemma parameters_commitChanges: "parameters (commitChanges n st) = parameters st"
  by (induction n st rule: commitChanges.induct) simp_all

lemma parameters_commit_or_mark: "parameters (snd (commit_or_mark n st)) = parameters st"
  by (simp add: commit_or_mark_def parameters_commitChanges)

lemma prefix_commit_or_mark: "prefix (fst (commit_or_mark n st)) = prefix n"
  by (simp add: commit_or_mark_def set_changed_def)

lemma frame_setDefault:
  "map_find (parameters st) key = Some v \<Longrightarrow>
   map_find (parameters (setDefault n st k w)) key = Some v"
  by (auto simp: setDefault_def map_find_insert)

lemma frame_setDefaults:
  "map_find (parameters st) key = Some v \<Longrightarrow>
   map_find (parameters (foldl (\<lambda>s e. setDefault n s (fst e) (snd e)) st ds)) key = Some v"
  by (induction ds arbitrary: st) (simp_all add: frame_setDefault)

subsection \<open>set and setDefault\<close>

text \<open>
  Claim C7. After \<^verbatim>\<open>set(k, v)\<close>, \<^verbatim>\<open>get(k)\<close> returns \<open>v\<close>, whether or not the key was there
  before. After \<^verbatim>\<open>setDefault(k, w)\<close>, \<^verbatim>\<open>get(k)\<close> returns the value stored before when the
  node contained the key, and \<open>w\<close> when it did not.
\<close>

theorem set_overwrites_setDefault_keeps:
  "get (fst (set_p n st k v)) (snd (set_p n st k v)) k d False = v \<and>
   get n (setDefault n st k w) k d False =
     (if contains n st k False then get n st k d False else w)"
proof
  show "get (fst (set_p n st k v)) (snd (set_p n st k v)) k d False = v"
    by (simp add: get_def set_p_def parameters_commit_or_mark prefix_commit_or_mark
          map_find_putOnMap)
  show "get n (setDefault n st k w) k d False =
          (if contains n st k False then get n st k d False else w)"
    by (auto simp: get_def setDefault_def contains_def map_find_insert split: option.splits)
qed

theorem set_overwrites_setDefault_keeps_witness:
  "get (fst (set_p instance_node \<lparr>parameters = [(''cpus'', ''4'')], commits = 0\<rparr> ''cpus'' ''2''))
     (snd (set_p instance_node \<lparr>parameters = [(''cpus'', ''4'')], commits = 0\<rparr> ''cpus'' ''2''))
     ''cpus'' [] False = ''2'' \<and>
   get instance_node
     (setDefault instance_node \<lparr>parameters = [(''cpus'', ''4'')], commits = 0\<rparr> ''cpus'' ''1'')
     ''cpus'' [] False = ''4'' \<and>
   get instance_node
     (setDefault instance_node \<lparr>parameters = [(''cpus'', ''4'')], commits = 0\<rparr> ''disk'' ''1024'')
     ''disk'' [] False = ''1024''"
  using set_overwrites_setDefault_keeps
          [of instance_node "\<lparr>parameters = [(''cpus'', ''4'')], commits = 0\<rparr>" "''cpus''" "''2''" "[]" "''1''"]
        set_overwrites_setDefault_keeps
          [of instance_node "\<lparr>parameters = [(''cpus'', ''4'')], commits = 0\<rparr>" "''disk''" "''2''" "[]" "''1024''"]
  by (simp add: contains_def get_def instance_node_def map_find_def)

subsection \<open>The session constructor\<close>

text \<open>
  Claim C10. Constructing a session over an existing parameter map overwrites nothing:
  every key of the shared map that had a value before the constructor still has that
  value after it.
\<close>

theorem HVSession_keeps_stored_values:
  "map_find (parameters st) key = Some v \<Longrightarrow>
   map_find (parameters (snd (HVSession api_port cernvm_version ston param st))) key = Some v"
  by (simp add: HVSession_def Let_def frame_setDefaults)

theorem HVSession_keeps_stored_values_witness:
  "map_find (parameters \<lparr>parameters = [(''cpus'', ''4'')], commits = 0\<rparr>) ''cpus'' = Some ''4'' \<and>
   map_find (parameters (snd (HVSession ''80'' ''1.17'' (\<lambda>_. 0) instance_node
                                 \<lparr>parameters = [(''cpus'', ''4'')], commits = 0\<rparr>))) ''cpus''
     = Some ''4''"
proof -
  have h: "map_find (parameters \<lparr>parameters = [(''cpus'', ''4'')], commits = 0\<rparr>) ''cpus'' = Some ''4''"
    by (simp add: map_find_def)
  show ?thesis
    using h HVSession_keeps_stored_values [OF h, of "''80''" "''1.17''" "\<lambda>_. 0" instance_node]
    by simp
qed

subsection \<open>Commits\<close>



lemma get_after_set_p: "get (fst (set_p n st k v)) (snd (set_p n st k v)) k d False = v"
  by (simp add: get_def set_p_def parameters_commit_or_mark prefix_commit_or_mark
        map_find_putOnMap)

lemma do_writes_locked:
  "locked m \<Longrightarrow>
   locked (fst (do_writes ntos (m, st) ws)) \<and>
   prefix (fst (do_writes ntos (m, st) ws)) = prefix m \<and>
   parent (fst (do_writes ntos (m, st) ws)) = parent m \<and>
   commits (snd (do_writes ntos (m, st) ws)) = commits st \<and>
   changed (fst (do_writes ntos (m, st) ws)) = (changed m \<or> ws \<noteq> [])"
proof (induction ws arbitrary: m st)
  case Nil
  then show ?case by (simp add: do_writes_def)
next
  case (Cons w ws)
  obtain m1 st1 where step: "do_write ntos (m, st) w = (m1, st1)"
    by (cases "do_write ntos (m, st) w")
  have m1: "locked m1" "prefix m1 = prefix m" "parent m1 = parent m"
    "commits st1 = commits st" "changed m1"
    using step Cons.prems
    by (cases w; simp add: set_p_def setNum_def setBool_def commit_or_mark_def set_changed_def;
        fastforce)+
  have "do_writes ntos (m, st) (w # ws) = do_writes ntos (m1, st1) ws"
    by (simp add: do_writes_def step)
  with Cons.IH [OF m1(1), of st1] m1 show ?case by simp
qed


text \<open>
  Claim C5. On any node, \<^verbatim>\<open>lock()\<close>, then the writes \<open>ws\<close> (each a \<^verbatim>\<open>set\<close>, \<^verbatim>\<open>setNum\<close> or
  \<^verbatim>\<open>setBool\<close>), then \<^verbatim>\<open>unlock()\<close>: no commit happens before the unlock, the whole batch
  commits once when there was a write and not at all when there was none, and a write
  made under the lock is in the map at once, so that \<^verbatim>\<open>get\<close> returns it.
\<close>

theorem lock_unlock_batching:
  "commits (snd (do_writes ntos (lock n, st) ws)) = commits st \<and>
   commits (snd (locked_batch ntos n st ws)) = commits st + (if ws = [] then 0 else 1) \<and>
   get (fst (do_write ntos (lock n, st) (WSet k v))) (snd (do_write ntos (lock n, st) (WSet k v)))
     k d False = v \<and>
   get (fst (do_write ntos (lock n, st) (WSetNum k i)))
     (snd (do_write ntos (lock n, st) (WSetNum k i))) k d False = ntos i \<and>
   get (fst (do_write ntos (lock n, st) (WSetBool k b)))
     (snd (do_write ntos (lock n, st) (WSetBool k b))) k d False = (if b then ''y'' else ''n'')"
proof -
  have l: "locked (lock n)" "\<not> changed (lock n)"
    by (simp_all add: lock_def)
  note inv = do_writes_locked [OF l(1), of ntos st ws]
  obtain m' st' where r: "do_writes ntos (lock n, st) ws = (m', st')"
    by (cases "do_writes ntos (lock n, st) ws")
  from inv r l have m': "commits st' = commits st" "changed m' = (ws \<noteq> [])"
    by simp_all
  have "commits (snd (locked_batch ntos n st ws)) = commits st + (if ws = [] then 0 else 1)"
    using m' by (simp add: locked_batch_def r unlock_def Let_def commits_commitChanges)
  moreover have "commits (snd (do_writes ntos (lock n, st) ws)) = commits st"
    using inv by simp
  ultimately show ?thesis
    by (simp add: get_after_set_p setNum_def setBool_def)
qed

theorem lock_unlock_batching_witness:
  "commits (snd (locked_batch (\<lambda>_. ''3'') instance_node instance_store
                  [WSet ''a'' ''1'', WSetNum ''b'' 3, WSetBool ''c'' True])) = 1 \<and>
   commits (snd (locked_batch (\<lambda>_. ''3'') instance_node instance_store [])) = 0"
  using lock_unlock_batching [of "\<lambda>_. ''3''" instance_node instance_store
          "[WSet ''a'' ''1'', WSetNum ''b'' 3, WSetBool ''c'' True]"]
        lock_unlock_batching [of "\<lambda>_. ''3''" instance_node instance_store "[]"]
  by (simp add: instance_store_def)




subsection \<open>JSON import\<close>

text \<open>
  Claim C3 at a failing input. Importing the object \<open>{"g": {"x": "1"}}\<close> into a root node
  recurses into the subgroup \<open>g\<close>, whose prefix is \<open>g/\<close> under the separator \<open>/\<close>, and
  stores the string member under the bare key \<open>x\<close>, not under \<open>g/x\<close>: the subgroup does not
  see the value, and lists no key.
\<close>

theorem fromJSON_drops_prefix:
  "parameters (snd (fromJSON ''/'' (\<lambda>_. ''0'') instance_node instance_store
                      [(''g'', JObject [(''x'', JString ''1'')])] False True)) = [(''x'', ''1'')] \<and>
   get (subgroup ''/'' instance_node ''g'')
     (snd (fromJSON ''/'' (\<lambda>_. ''0'') instance_node instance_store
             [(''g'', JObject [(''x'', JString ''1'')])] False True))
     ''x'' ''absent'' False = ''absent'' \<and>
   enumKeys ''/'' (subgroup ''/'' instance_node ''g'')
     (snd (fromJSON ''/'' (\<lambda>_. ''0'') instance_node instance_store
             [(''g'', JObject [(''x'', JString ''1'')])] False True)) = []"
  by (simp add: fromJSON_def instance_node_def instance_store_def subgroup_def
        commit_or_mark_def import_entry_def putOnMap_def map_find_def map_insert_def get_def
        enumKeys_def visible_def)

subsection \<open>Export and re-import\<close>

lemma map_find_eq: "map_find m = map_of m"
  by (rule ext) (simp add: map_find_def)

lemma keys_map_insert: "fst ` set (map_insert m k v) = insert k (fst ` set m)"
  by (auto simp: map_insert_def map_find_def set_insort_key map_of_eq_None_iff)

lemma set_map_insert: "set (map_insert m k v) \<subseteq> insert (k, v) (set m)"
  by (auto simp: map_insert_def set_insort_key)

lemma foldl_map_insert:
  "fst ` set (foldl (\<lambda>m k. map_insert m k (f k)) m0 ks) = fst ` set m0 \<union> set ks \<and>
   set (foldl (\<lambda>m k. map_insert m k (f k)) m0 ks) \<subseteq> set m0 \<union> (\<lambda>k. (k, f k)) ` set ks"
proof (induction ks arbitrary: m0)
  case Nil
  show ?case by simp
next
  case (Cons k ks)
  show ?case
    using Cons.IH [of "map_insert m0 k (f k)"] set_map_insert [of m0 k "f k"]
    by (auto simp: keys_map_insert)
qed

lemma map_find_import_entry:
  "map_find (import_entry True ps k v) = (map_find ps)(k \<mapsto> v)"
  by (simp add: import_entry_def map_find_putOnMap)

lemma foldl_import_entry:
  "map_find (foldl (\<lambda>ps e. import_entry True ps (p @ fst e) (snd e)) ps0 m) =
   map_find ps0 ++ map_of (rev (map (\<lambda>e. (p @ fst e, snd e)) m))"
proof (induction m arbitrary: ps0)
  case Nil
  show ?case by simp
next
  case (Cons e m)
  let ?F = "\<lambda>ps e. import_entry True ps (p @ fst e) (snd e)"
  let ?M = "map_of (rev (map (\<lambda>e. (p @ fst e, snd e)) m))"
  have "map_find (foldl ?F ps0 (e # m)) = map_find (?F ps0 e) ++ ?M"
    using Cons.IH [of "?F ps0 e"] by simp
  also have "\<dots> = (map_find ps0)(p @ fst e \<mapsto> snd e) ++ ?M"
    by (simp only: map_find_import_entry)
  also have "\<dots> = map_find ps0 ++ map_of (rev (map (\<lambda>e. (p @ fst e, snd e)) (e # m)))"
    by (rule ext) (simp add: map_add_def split: option.splits)
  finally show ?case .
qed

text \<open>
  Claim C8. Exporting a node with \<^verbatim>\<open>toMap\<close> and importing the result with
  \<^verbatim>\<open>fromMap(replace = true)\<close> into a new node with the same prefix gives a node with the
  same visible keys (the set of \<^verbatim>\<open>enumKeys\<close>), and \<^verbatim>\<open>get\<close> returns the same value for each
  of them.
\<close>

theorem toMap_fromMap_roundtrip:
  "set (enumKeys sep (fst (roundtrip sep n st)) (snd (roundtrip sep n st))) = set (enumKeys sep n st) \<and>
   (\<forall>k \<in> set (enumKeys sep n st).
      get (fst (roundtrip sep n st)) (snd (roundtrip sep n st)) k d False = get n st k d False)"
proof -
  define p where "p = prefix n"
  define ks where "ks = enumKeys sep n st"
  define f where "f = (\<lambda>k. map_at (parameters st) (p @ k))"
  define m where "m = toMap sep n st [] False"
  define g where "g = (\<lambda>e :: string \<times> string. (p @ fst e, snd e))"
  define n' where "n' = ParameterMap p False False None"
  define ps' where "ps' = foldl (\<lambda>ps e. import_entry True ps (p @ fst e) (snd e)) [] m"
  have m_eq: "m = foldl (\<lambda>m k. map_insert m k (f k)) [] ks"
    by (simp add: m_def toMap_def ks_def f_def p_def)
  have m_keys: "fst ` set m = set ks" and m_entries: "set m \<subseteq> (\<lambda>k. (k, f k)) ` set ks"
    using foldl_map_insert [of f "[]" ks] by (simp_all add: m_eq)
  have rt: "fst (roundtrip sep n st) = n'" "parameters (snd (roundtrip sep n st)) = ps'"
    by (simp_all add: roundtrip_def fromMap_def Let_def commit_or_mark_def n'_def p_def
          parameters_commitChanges instance_store_def ps'_def m_def)
  have find': "map_find ps' = map_of (rev (map g m))"
    using foldl_import_entry [of p "[]" m] by (simp add: ps'_def g_def map_find_eq)
  have keys': "fst ` set ps' = (\<lambda>k. p @ k) ` set ks"
  proof -
    have "fst ` set ps' = dom (map_find ps')"
      by (simp add: map_find_eq dom_map_of_conv_image_fst)
    also have "\<dots> = fst ` set (map g m)"
      by (simp add: find' dom_map_of_conv_image_fst)
    also have "\<dots> = (\<lambda>k. p @ k) ` fst ` set m"
      by (simp add: g_def image_image)
    finally show ?thesis by (simp add: m_keys)
  qed
  have pre: "prefix n' = p"
    by (simp add: n'_def)
  have vis: "visible sep n' = visible sep n"
    by (rule ext) (simp add: visible_def n'_def p_def)
  have orig: "visible sep n (p @ k) \<and> (\<exists>v. map_find (parameters st) (p @ k) = Some v)"
    if "k \<in> set ks" for k
  proof -
    from that obtain key where key: "key \<in> fst ` set (parameters st)" "visible sep n key"
      "k = drop (length p) key"
      by (auto simp: ks_def enumKeys_def p_def)
    from key(2) have "take (length p) key = p"
      by (simp add: visible_def p_def)
    with key(3) have "key = p @ k"
      by (metis append_take_drop_id)
    moreover from key(1) have "map_find (parameters st) key \<noteq> None"
      by (simp add: map_find_def map_of_eq_None_iff)
    ultimately show ?thesis using key(2) by auto
  qed
  have "set (enumKeys sep n' (snd (roundtrip sep n st))) = set ks"
  proof -
    have "set (enumKeys sep n' (snd (roundtrip sep n st))) =
            drop (length p) ` {key \<in> fst ` set ps'. visible sep n key}"
      by (auto simp: enumKeys_def rt vis pre)
    also have "\<dots> = drop (length p) ` (\<lambda>k. p @ k) ` set ks"
      using orig by (auto simp: keys')
    also have "\<dots> = set ks"
      by (simp add: image_image)
    finally show ?thesis .
  qed
  moreover have "get n' (snd (roundtrip sep n st)) k d False = get n st k d False"
    if k: "k \<in> set ks" for k
  proof -
    from orig [OF k] obtain v0 where v0: "map_find (parameters st) (p @ k) = Some v0"
      by blast
    have "p @ k \<in> dom (map_find ps')"
      using k keys' by (auto simp: map_find_eq dom_map_of_conv_image_fst)
    then obtain v where v: "map_find ps' (p @ k) = Some v"
      by blast
    then have "(p @ k, v) \<in> set (map g m)"
      using map_of_SomeD [of "rev (map g m)" "p @ k" v] by (simp add: find')
    then obtain e where e: "e \<in> set m" "fst e = k" "snd e = v"
      by (auto simp: g_def)
    with m_entries have "v = f k" by auto
    with v0 have "v = v0" by (simp add: f_def map_at_def)
    with v v0 show ?thesis
      by (simp add: get_def rt pre) (simp add: p_def)
  qed
  ultimately show ?thesis
    by (simp add: rt ks_def)
qed

theorem toMap_fromMap_roundtrip_witness:
  "''a'' \<in> set (enumKeys ''/'' (subgroup ''/'' instance_node ''s'')
                   \<lparr>parameters = [(''s/a'', ''1''), (''s/g/x'', ''2''), (''t'', ''3'')], commits = 0\<rparr>) \<and>
   set (enumKeys ''/''
          (fst (roundtrip ''/'' (subgroup ''/'' instance_node ''s'')
                  \<lparr>parameters = [(''s/a'', ''1''), (''s/g/x'', ''2''), (''t'', ''3'')], commits = 0\<rparr>))
          (snd (roundtrip ''/'' (subgroup ''/'' instance_node ''s'')
                  \<lparr>parameters = [(''s/a'', ''1''), (''s/g/x'', ''2''), (''t'', ''3'')], commits = 0\<rparr>)))
     = {''a''} \<and>
   get (fst (roundtrip ''/'' (subgroup ''/'' instance_node ''s'')
               \<lparr>parameters = [(''s/a'', ''1''), (''s/g/x'', ''2''), (''t'', ''3'')], commits = 0\<rparr>))
       (snd (roundtrip ''/'' (subgroup ''/'' instance_node ''s'')
               \<lparr>parameters = [(''s/a'', ''1''), (''s/g/x'', ''2''), (''t'', ''3'')], commits = 0\<rparr>))
       ''a'' [] False = ''1''"
proof -
  have keys: "enumKeys ''/'' (subgroup ''/'' instance_node ''s'')
                \<lparr>parameters = [(''s/a'', ''1''), (''s/g/x'', ''2''), (''t'', ''3'')], commits = 0\<rparr>
              = [''a'']"
    by (simp add: enumKeys_def visible_def subgroup_def instance_node_def)
  have val: "get (subgroup ''/'' instance_node ''s'')
               \<lparr>parameters = [(''s/a'', ''1''), (''s/g/x'', ''2''), (''t'', ''3'')], commits = 0\<rparr>
               ''a'' [] False = ''1''"
    by (simp add: get_def subgroup_def instance_node_def map_find_def)
  show ?thesis
    using toMap_fromMap_roundtrip [of "''/''" "subgroup ''/'' instance_node ''s''"
            "\<lparr>parameters = [(''s/a'', ''1''), (''s/g/x'', ''2''), (''t'', ''3'')], commits = 0\<rparr>" "[]"]
    by (simp add: keys val)
qed

subsection \<open>Abort in the download provider\<close>












section \<open>Facts about the context image builders\<close>

lemma dec_digit: "n < 10 \<Longrightarrow> dec n = [char_of (48 + n)]"
  by (subst dec.simps) simp

lemma dec_more: "\<not> n < 10 \<Longrightarrow> dec n = dec (n div 10) @ [char_of (48 + n mod 10)]"
  by (subst dec.simps) simp

lemma align2k_eq: "align2k x = x + (- x) mod 2048"
proof (induction x rule: align2k.induct)
  case (1 x)
  show ?case
  proof (cases "x mod 2048 = 0")
    case True
    then show ?thesis by (subst align2k.simps) (simp add: zmod_zminus1_eq_if)
  next
    case False
    have step: "(x + 1) mod 2048 = (x mod 2048 + 1) mod 2048"
      by (simp add: mod_add_left_eq)
    have bounds: "0 \<le> x mod 2048" "x mod 2048 < 2048"
      by simp_all
    have "align2k x = align2k (x + 1)"
      using False by (subst align2k.simps) simp
    also have "\<dots> = x + 1 + (- (x + 1)) mod 2048"
      using False 1 by simp
    also have "\<dots> = x + (- x) mod 2048"
    proof -
      have m1: "(- (x + 1)) mod 2048 = (if (x + 1) mod 2048 = 0 then 0 else 2048 - (x + 1) mod 2048)"
        by (rule zmod_zminus1_eq_if)
      have m0: "(- x) mod 2048 = 2048 - x mod 2048"
        using False by (simp add: zmod_zminus1_eq_if)
      show ?thesis
      proof (cases "x mod 2048 + 1 < 2048")
        case True
        with bounds step have "(x + 1) mod 2048 = x mod 2048 + 1" by simp
        with bounds show ?thesis unfolding m1 m0 by simp
      next
        case F: False
        with bounds have "x mod 2048 + 1 = 2048" by linarith
        with step have "(x + 1) mod 2048 = 0" "x mod 2048 = 2047" by simp_all
        then show ?thesis unfolding m1 m0 by simp
      qed
    qed
    finally show ?thesis .
  qed
qed

lemmas eval_defs =
  build_ami_ci_cdrom_def build_simple_cdrom_def dateNow_def fmt_u_def dec_digit dec_more Let_def
  char_of_def bit_iff_odd template_writes_def extent_writes_def content_writes_def size_writes_def
  blank_iso9660_h_def memcpy_def CONTEXTISO_CDROM_SIZE_def readmeSize_def metaDataContentSize_def
  README_CONTENT_def META_DATA_CONTENT_def osMetaOffset_def osUserOffset_def align2k_eq
  EC_USER_CONTENT_OFFSET_def OS_META_CONTENT_OFFSET_def OS_USER_CONTENT_OFFSET_def
  README_CONTENT_OFFSET_def EC_META_CONTENT_OFFSET_def CONTENTS_OFFSET_def
  SECONDARY_DIRECTORY_RECORD_OFFSET_def isosetl_def bytes_of_def descPrimary_def
  descFile_def poke_def simple_lDataSize_def file_name_def

subsection \<open>Relocation of the second convention\<close>

lemma align2k_props:
  "align2k x mod 2048 = 0" "x \<le> align2k x" "align2k x < x + 2048"
proof -
  have b: "0 \<le> (- x) mod 2048" "(- x) mod 2048 < 2048" by simp_all
  show "align2k x mod 2048 = 0"
    by (simp add: align2k_eq mod_add_right_eq)
  from b show "x \<le> align2k x" "align2k x < x + 2048"
    by (simp_all add: align2k_eq)
qed

lemma c_div_nonneg: "0 \<le> a \<Longrightarrow> c_div a 2048 = a div 2048"
  by (cases "a = 0") (simp_all add: c_div_def)

lemma memcpy_all_append:
  "memcpy_all b (ws1 @ ws2) =
     (case memcpy_all b ws1 of Inl e \<Rightarrow> Inl e | Inr b1 \<Rightarrow> memcpy_all b1 ws2)"
  by (induction ws1 arbitrary: b) (auto split: sum.splits)

lemma memcpy_Inr:
  "memcpy b off src n = Inr b' \<Longrightarrow>
   0 \<le> n \<and> 0 \<le> off \<and> off + n \<le> CONTEXTISO_CDROM_SIZE \<and> n \<le> int (length src) \<and>
   b' = (\<lambda>i. if off \<le> i \<and> i < off + n then src ! nat (i - off) else b i)"
  by (auto simp: memcpy_def split: if_splits)

lemma memcpy_all_untouched:
  "memcpy_all b ws = Inr b' \<Longrightarrow>
   \<forall>w \<in> set ws. snd (snd w) \<le> 0 \<or> fst w + snd (snd w) \<le> i \<or> i < fst w \<Longrightarrow>
   b' i = b i"
proof (induction ws arbitrary: b)
  case Nil
  then show ?case by simp
next
  case (Cons w ws)
  obtain off src n where w: "w = (off, src, n)" by (cases w)
  from Cons.prems(1) w obtain b1 where b1: "memcpy b off src n = Inr b1" "memcpy_all b1 ws = Inr b'"
    by (auto split: sum.splits)
  from Cons.prems(2) w have out: "n \<le> 0 \<or> off + n \<le> i \<or> i < off" by simp
  have "b' i = b1 i"
    using Cons.IH [OF b1(2)] Cons.prems(2) by simp
  also have "b1 i = b i"
    using memcpy_Inr [OF b1(1)] out by auto
  finally show ?case .
qed

lemma region_after_writes:
  assumes run: "memcpy_all b (ws1 @ (off, src, n) # ws2) = Inr b'"
    and inside: "off \<le> p" "p + int m \<le> off + n"
    and later: "\<forall>w \<in> set ws2. snd (snd w) \<le> 0 \<or> fst w + snd (snd w) \<le> p \<or> p + int m \<le> fst w"
  shows "region b' p m = take m (drop (nat (p - off)) src)"
proof -
  from run obtain b1 b2 where
    b2: "memcpy b1 off src n = Inr b2" and rest: "memcpy_all b2 ws2 = Inr b'"
    by (auto simp: memcpy_all_append split: sum.splits)
  note c = memcpy_Inr [OF b2]
  have len: "nat (p - off) + m \<le> length src"
    using c inside by linarith
  show ?thesis
  proof (rule nth_equalityI)
    show "length (region b' p m) = length (take m (drop (nat (p - off)) src))"
      using len by (simp add: region_def)
  next
    fix j
    assume "j < length (region b' p m)"
    then have j: "j < m" by (simp add: region_def)
    have "\<forall>w \<in> set ws2. snd (snd w) \<le> 0 \<or> fst w + snd (snd w) \<le> p + int j \<or> p + int j < fst w"
      using later j by fastforce
    from memcpy_all_untouched [OF rest this]
    have "b' (p + int j) = b2 (p + int j)" .
    also have "\<dots> = src ! nat (p + int j - off)"
      using c inside j by simp
    also have "nat (p + int j - off) = nat (p - off) + j"
      using inside by linarith
    finally show "region b' p m ! j = take m (drop (nat (p - off)) src) ! j"
      using j len by (simp add: region_def)
  qed
qed

lemma sizes: "readmeSize = 489" "metaDataContentSize = 55"
  by (simp_all add: readmeSize_def metaDataContentSize_def README_CONTENT_def META_DATA_CONTENT_def)

lemma length_isosetl: "length (isosetl x) = 8"
  by (simp add: isosetl_def)

lemma os_offsets_relocated:
  assumes "OS_META_CONTENT_OFFSET \<le> EC_USER_CONTENT_OFFSET + contentSize"
  shows "osMetaOffset contentSize mod 2048 = 0"
    "EC_USER_CONTENT_OFFSET + contentSize + 1 \<le> osMetaOffset contentSize"
    "osMetaOffset contentSize < EC_USER_CONTENT_OFFSET + contentSize + 1 + 2048"
    "osUserOffset contentSize mod 2048 = 0"
    "osMetaOffset contentSize + metaDataContentSize + 1 \<le> osUserOffset contentSize"
    "osUserOffset contentSize < osMetaOffset contentSize + metaDataContentSize + 1 + 2048"
  using assms align2k_props [of "EC_USER_CONTENT_OFFSET + contentSize + 1"]
    align2k_props [of "align2k (EC_USER_CONTENT_OFFSET + contentSize + 1) + metaDataContentSize + 1"]
  by (simp_all add: osMetaOffset_def osUserOffset_def)

lemma os_offsets_default:
  assumes "EC_USER_CONTENT_OFFSET + contentSize < OS_META_CONTENT_OFFSET"
  shows "osMetaOffset contentSize = 0xF800" "osUserOffset contentSize = 0x10000"
  using assms
  by (simp_all add: osMetaOffset_def osUserOffset_def OS_META_CONTENT_OFFSET_def
        OS_USER_CONTENT_OFFSET_def)

lemma os_offsets_bounds:
  assumes "0 \<le> contentSize"
  shows "EC_USER_CONTENT_OFFSET + contentSize < osMetaOffset contentSize"
    "osMetaOffset contentSize + metaDataContentSize < osUserOffset contentSize"
    "0xF800 \<le> osMetaOffset contentSize"
proof -
  consider (r) "OS_META_CONTENT_OFFSET \<le> EC_USER_CONTENT_OFFSET + contentSize"
    | (d) "EC_USER_CONTENT_OFFSET + contentSize < OS_META_CONTENT_OFFSET" by linarith
  then have "EC_USER_CONTENT_OFFSET + contentSize < osMetaOffset contentSize \<and>
    osMetaOffset contentSize + metaDataContentSize < osUserOffset contentSize \<and>
    0xF800 \<le> osMetaOffset contentSize"
  proof cases
    case r
    from os_offsets_relocated [OF r] r show ?thesis
      by (simp add: OS_META_CONTENT_OFFSET_def)
  next
    case d
    from os_offsets_default [OF d] d show ?thesis
      by (simp add: OS_META_CONTENT_OFFSET_def sizes)
  qed
  then show "EC_USER_CONTENT_OFFSET + contentSize < osMetaOffset contentSize"
    "osMetaOffset contentSize + metaDataContentSize < osUserOffset contentSize"
    "0xF800 \<le> osMetaOffset contentSize" by simp_all
qed

subsection \<open>What isosetl stores\<close>

lemma digits4:
  fixes x :: int
  assumes "0 \<le> x" "x < 2 ^ 32"
  shows "x = x mod 256 + 256 * ((x div 256) mod 256) + 65536 * ((x div 65536) mod 256)
             + 16777216 * ((x div 16777216) mod 256)"
proof -
  define y where "y = x div 256"
  define z where "z = y div 256"
  define w where "w = z div 256"
  have s1: "x = x mod 256 + 256 * y"
    by (simp add: y_def)
  have s2: "y = y mod 256 + 256 * z"
    by (simp add: z_def)
  have s3: "z = z mod 256 + 256 * w"
    by (simp add: w_def)
  have ez: "z = x div 65536"
    unfolding z_def y_def using zdiv_zmult2_eq [of 256 x 256] by simp
  have ew: "w = x div 16777216"
    unfolding w_def ez using zdiv_zmult2_eq [of 256 x 65536] by simp
  have "0 \<le> w" "w < 256"
    using assms by (simp_all add: ew)
  then have s4: "w mod 256 = w"
    by simp
  have "x = x mod 256 + 256 * (y mod 256) + 65536 * (z mod 256) + 16777216 * (w mod 256)"
    using s1 s2 s3 s4 by linarith
  then show ?thesis
    by (simp only: ez ew y_def)
qed

lemma byte_of: "uint (word_of_int (drop_bit k x AND 0xFF) :: byte) = (x div 2 ^ k) mod 256"
proof -
  have "(255 :: int) = mask 8" by (simp add: mask_eq_exp_minus_1)
  then have "drop_bit k x AND 255 = take_bit 8 (drop_bit k x)"
    by (simp add: take_bit_eq_mask)
  then show ?thesis
    by (simp add: uint_word_of_int take_bit_eq_mod drop_bit_eq_div)
qed

lemma isosetl_bytes:
  "uint (word_of_int (x AND 0xFF) :: byte) = x mod 256"
  "uint (word_of_int (drop_bit 8 x AND 0xFF) :: byte) = (x div 256) mod 256"
  "uint (word_of_int (drop_bit 16 x AND 0xFF) :: byte) = (x div 65536) mod 256"
  "uint (word_of_int (drop_bit 24 x AND 0xFF) :: byte) = (x div 16777216) mod 256"
  using byte_of [of 0 x] byte_of [of 8 x] byte_of [of 16 x] byte_of [of 24 x]
  by simp_all

lemma both_endian_isosetl:
  assumes "0 \<le> x" "x < 2 ^ 32"
  shows "both_endian (isosetl x) = Some x"
proof -
  have le: "le32 (take 4 (isosetl x)) =
      x mod 256 + 256 * ((x div 256) mod 256) + 65536 * ((x div 65536) mod 256)
        + 16777216 * ((x div 16777216) mod 256)"
    by (simp add: isosetl_def le32_def isosetl_bytes drop_bit_eq_div)
  have be: "be32 (drop 4 (isosetl x)) =
      x mod 256 + 256 * ((x div 256) mod 256) + 65536 * ((x div 65536) mod 256)
        + 16777216 * ((x div 16777216) mod 256)"
    by (simp add: isosetl_def be32_def isosetl_bytes drop_bit_eq_div)
  have len: "length (isosetl x) = 8"
    by (simp add: isosetl_def)
  have "le32 (take 4 (isosetl x)) = x"
    unfolding le by (rule digits4 [OF assms, symmetric])
  moreover have "be32 (drop 4 (isosetl x)) = x"
    unfolding be by (rule digits4 [OF assms, symmetric])
  ultimately show ?thesis
    unfolding both_endian_def using len by simp
qed

subsection \<open>The extent fields and the regions\<close>

lemma memcpy_all_ok:
  "memcpy_all b ws = Inr b' \<Longrightarrow> (off, src, n) \<in> set ws \<Longrightarrow>
   0 \<le> n \<and> 0 \<le> off \<and> off + n \<le> CONTEXTISO_CDROM_SIZE \<and> n \<le> int (length src)"
proof (induction ws arbitrary: b)
  case Nil
  then show ?case by simp
next
  case (Cons w ws)
  obtain off' src' n' where w: "w = (off', src', n')" by (cases w)
  from Cons.prems(1) w obtain b1 where b1: "memcpy b off' src' n' = Inr b1" "memcpy_all b1 ws = Inr b'"
    by (auto split: sum.splits)
  show ?case
  proof (cases "(off, src, n) = w")
    case True
    with w memcpy_Inr [OF b1(1)] show ?thesis by simp
  next
    case False
    with Cons.prems(2) have "(off, src, n) \<in> set ws" by simp
    from Cons.IH [OF b1(2) this] show ?thesis .
  qed
qed

lemmas offset_defs =
  EC_USER_CONTENT_OFFSET_def OS_META_CONTENT_OFFSET_def OS_USER_CONTENT_OFFSET_def
  README_CONTENT_OFFSET_def EC_META_CONTENT_OFFSET_def

lemma relocation_bytes:
  assumes lay: "layout_ok h"
    and built: "build_ami_ci_cdrom h tmNow vol content contentSize = Inr img"
  shows
    "(OS_META_CONTENT_OFFSET \<le> EC_USER_CONTENT_OFFSET + contentSize \<longrightarrow>
        region (bytes img) (0xD800 + AT_D800_META_EXTENT_OFFSET h) 8 =
          isosetl (osMetaOffset contentSize div 2048) \<and>
        region (bytes img) (0xD800 + AT_D800_USER_EXTENT_OFFSET h) 8 =
          isosetl (osUserOffset contentSize div 2048)) \<and>
     (EC_USER_CONTENT_OFFSET + contentSize < OS_META_CONTENT_OFFSET \<longrightarrow>
        region (bytes img) (0xD800 + AT_D800_META_EXTENT_OFFSET h) 8 =
          take 8 (drop (nat (AT_D800_META_EXTENT_OFFSET h)) (AT_D800 h)) \<and>
        region (bytes img) (0xD800 + AT_D800_USER_EXTENT_OFFSET h) 8 =
          take 8 (drop (nat (AT_D800_USER_EXTENT_OFFSET h)) (AT_D800 h))) \<and>
     region (bytes img) EC_USER_CONTENT_OFFSET (nat contentSize) = take (nat contentSize) content \<and>
     region (bytes img) (osMetaOffset contentSize) (nat metaDataContentSize) =
       bytes_of META_DATA_CONTENT \<and>
     region (bytes img) (osUserOffset contentSize) (nat contentSize) = take (nat contentSize) content"
proof -
  let ?T = "template_writes h"
  let ?E = "extent_writes h contentSize"
  let ?C = "content_writes content contentSize"
  let ?S = "size_writes h contentSize"
  let ?z = "\<lambda>_::int. 0 :: byte"
  let ?b = "bytes img"
  let ?me = "(0xD800 + AT_D800_META_EXTENT_OFFSET h, isosetl (c_div (osMetaOffset contentSize) 2048), 8 :: int)"
  let ?ue = "(0xD800 + AT_D800_USER_EXTENT_OFFSET h, isosetl (c_div (osUserOffset contentSize) 2048), 8 :: int)"
  from built have run: "memcpy_all ?z (?T @ ?E @ ?C @ ?S) = Inr ?b"
    by (auto simp: build_ami_ci_cdrom_def split: if_splits sum.splits)
  have "(EC_USER_CONTENT_OFFSET, content, contentSize) \<in> set (?T @ ?E @ ?C @ ?S)"
    by (simp add: content_writes_def)
  from memcpy_all_ok [OF run this] have cs: "0 \<le> contentSize" "contentSize \<le> int (length content)"
    by simp_all
  note ob = os_offsets_bounds [OF cs(1)]
  from lay have L:
    "0 \<le> AT_D800_META_EXTENT_OFFSET h" "AT_D800_META_EXTENT_OFFSET h + 8 \<le> int (length (AT_D800 h))"
    "0 \<le> AT_D800_USER_EXTENT_OFFSET h" "AT_D800_USER_EXTENT_OFFSET h + 8 \<le> int (length (AT_D800 h))"
    "0 \<le> AT_D800_META_DATA_SIZE_OFFSET h" "AT_D800_META_DATA_SIZE_OFFSET h + 8 \<le> int (length (AT_D800 h))"
    "0 \<le> AT_D800_USER_DATA_SIZE_OFFSET h" "AT_D800_USER_DATA_SIZE_OFFSET h + 8 \<le> int (length (AT_D800 h))"
    "0 \<le> AT_B800_README_SIZE_OFFSET h" "AT_B800_README_SIZE_OFFSET h + 8 \<le> int (length (AT_B800 h))"
    "0 \<le> AT_C800_META_DATA_SIZE_OFFSET h" "AT_C800_META_DATA_SIZE_OFFSET h + 8 \<le> int (length (AT_C800 h))"
    "0 \<le> AT_C800_USER_DATA_SIZE_OFFSET h" "AT_C800_USER_DATA_SIZE_OFFSET h + 8 \<le> int (length (AT_C800 h))"
    "int (length (AT_D800 h)) \<le> 2048" "int (length (AT_B800 h)) \<le> 2048" "int (length (AT_C800 h)) \<le> 2048"
    by (simp_all add: layout_ok_def field_in_def)
  from lay have A:
    "apart (AT_D800_META_EXTENT_OFFSET h) (AT_D800_USER_EXTENT_OFFSET h)"
    "apart (AT_D800_META_EXTENT_OFFSET h) (AT_D800_META_DATA_SIZE_OFFSET h)"
    "apart (AT_D800_META_EXTENT_OFFSET h) (AT_D800_USER_DATA_SIZE_OFFSET h)"
    "apart (AT_D800_USER_EXTENT_OFFSET h) (AT_D800_META_DATA_SIZE_OFFSET h)"
    "apart (AT_D800_USER_EXTENT_OFFSET h) (AT_D800_USER_DATA_SIZE_OFFSET h)"
    by (simp_all add: layout_ok_def)
  have later_S: "\<forall>w \<in> set ?S. snd (snd w) \<le> 0 \<or> fst w + snd (snd w) \<le> p \<or> p + int m \<le> fst w"
    if "0xE000 \<le> p" for p m
    using that L by (simp add: size_writes_def)
  have a_user: "region ?b EC_USER_CONTENT_OFFSET (nat contentSize) = take (nat contentSize) content"
  proof -
    let ?ws1 = "?T @ ?E @ [(README_CONTENT_OFFSET, bytes_of README_CONTENT, readmeSize),
        (EC_META_CONTENT_OFFSET, bytes_of META_DATA_CONTENT, metaDataContentSize)]"
    let ?ws2 = "[(osMetaOffset contentSize, bytes_of META_DATA_CONTENT, metaDataContentSize),
        (osUserOffset contentSize, content, contentSize)] @ ?S"
    have split: "?T @ ?E @ ?C @ ?S = ?ws1 @ (EC_USER_CONTENT_OFFSET, content, contentSize) # ?ws2"
      by (simp add: content_writes_def)
    have later: "\<forall>w \<in> set ?ws2. snd (snd w) \<le> 0 \<or> fst w + snd (snd w) \<le> EC_USER_CONTENT_OFFSET
                   \<or> EC_USER_CONTENT_OFFSET + int (nat contentSize) \<le> fst w"
      using later_S [of EC_USER_CONTENT_OFFSET "nat contentSize"] ob cs
      by (simp add: offset_defs sizes)
    from region_after_writes [OF run [unfolded split] _ _ later] cs show ?thesis by simp
  qed
  have b_meta: "region ?b (osMetaOffset contentSize) (nat metaDataContentSize) = bytes_of META_DATA_CONTENT"
  proof -
    let ?ws1 = "?T @ ?E @ [(README_CONTENT_OFFSET, bytes_of README_CONTENT, readmeSize),
        (EC_META_CONTENT_OFFSET, bytes_of META_DATA_CONTENT, metaDataContentSize),
        (EC_USER_CONTENT_OFFSET, content, contentSize)]"
    let ?ws2 = "(osUserOffset contentSize, content, contentSize) # ?S"
    have split: "?T @ ?E @ ?C @ ?S =
        ?ws1 @ (osMetaOffset contentSize, bytes_of META_DATA_CONTENT, metaDataContentSize) # ?ws2"
      by (simp add: content_writes_def)
    have later: "\<forall>w \<in> set ?ws2. snd (snd w) \<le> 0 \<or> fst w + snd (snd w) \<le> osMetaOffset contentSize
                   \<or> osMetaOffset contentSize + int (nat metaDataContentSize) \<le> fst w"
      using later_S [of "osMetaOffset contentSize" "nat metaDataContentSize"] ob cs
      by (simp add: offset_defs sizes)
    from region_after_writes [OF run [unfolded split] _ _ later] show ?thesis
      by (simp add: sizes bytes_of_def META_DATA_CONTENT_def)
  qed
  have b_user: "region ?b (osUserOffset contentSize) (nat contentSize) = take (nat contentSize) content"
  proof -
    let ?ws1 = "?T @ ?E @ [(README_CONTENT_OFFSET, bytes_of README_CONTENT, readmeSize),
        (EC_META_CONTENT_OFFSET, bytes_of META_DATA_CONTENT, metaDataContentSize),
        (EC_USER_CONTENT_OFFSET, content, contentSize),
        (osMetaOffset contentSize, bytes_of META_DATA_CONTENT, metaDataContentSize)]"
    have split: "?T @ ?E @ ?C @ ?S = ?ws1 @ (osUserOffset contentSize, content, contentSize) # ?S"
      by (simp add: content_writes_def)
    have later: "\<forall>w \<in> set ?S. snd (snd w) \<le> 0 \<or> fst w + snd (snd w) \<le> osUserOffset contentSize
                   \<or> osUserOffset contentSize + int (nat contentSize) \<le> fst w"
      using later_S [of "osUserOffset contentSize" "nat contentSize"] ob cs
      by (simp add: sizes)
    from region_after_writes [OF run [unfolded split] _ _ later] cs show ?thesis by simp
  qed
  have later_CS: "\<forall>w \<in> set (?C @ ?S). snd (snd w) \<le> 0 \<or> fst w + snd (snd w) \<le> 0xD800 + e
                    \<or> 0xD800 + e + int 8 \<le> fst w"
    if "0 \<le> e" "e + 8 \<le> int (length (AT_D800 h))"
      "apart e (AT_D800_META_DATA_SIZE_OFFSET h)" "apart e (AT_D800_USER_DATA_SIZE_OFFSET h)" for e
    using that L ob cs
    by (simp add: content_writes_def size_writes_def offset_defs sizes apart_def) linarith
  have reloc: "region ?b (0xD800 + AT_D800_META_EXTENT_OFFSET h) 8 = isosetl (osMetaOffset contentSize div 2048) \<and>
        region ?b (0xD800 + AT_D800_USER_EXTENT_OFFSET h) 8 = isosetl (osUserOffset contentSize div 2048)"
    if r: "OS_META_CONTENT_OFFSET \<le> EC_USER_CONTENT_OFFSET + contentSize"
  proof
    have E: "?E = [?me, ?ue]" using r by (simp add: extent_writes_def)
    have pos: "0 \<le> osMetaOffset contentSize" "0 \<le> osUserOffset contentSize"
      using ob sizes by simp_all
    have split1: "?T @ ?E @ ?C @ ?S = ?T @ ?me # (?ue # ?C @ ?S)"
      by (simp add: E)
    have later1: "\<forall>w \<in> set (?ue # ?C @ ?S). snd (snd w) \<le> 0
        \<or> fst w + snd (snd w) \<le> 0xD800 + AT_D800_META_EXTENT_OFFSET h
        \<or> 0xD800 + AT_D800_META_EXTENT_OFFSET h + int 8 \<le> fst w"
      using later_CS [OF L(1,2) A(2,3)] A(1) by (simp add: apart_def) linarith
    from region_after_writes [OF run [unfolded split1] _ _ later1]
    show "region ?b (0xD800 + AT_D800_META_EXTENT_OFFSET h) 8 = isosetl (osMetaOffset contentSize div 2048)"
      by (simp add: length_isosetl c_div_nonneg [OF pos(1)])
    have split2: "?T @ ?E @ ?C @ ?S = (?T @ [?me]) @ ?ue # (?C @ ?S)"
      by (simp add: E)
    from region_after_writes [OF run [unfolded split2] _ _ later_CS [OF L(3,4) A(4,5)]]
    show "region ?b (0xD800 + AT_D800_USER_EXTENT_OFFSET h) 8 = isosetl (osUserOffset contentSize div 2048)"
      by (simp add: length_isosetl c_div_nonneg [OF pos(2)])
  qed
  have dflt: "region ?b (0xD800 + AT_D800_META_EXTENT_OFFSET h) 8 =
          take 8 (drop (nat (AT_D800_META_EXTENT_OFFSET h)) (AT_D800 h)) \<and>
        region ?b (0xD800 + AT_D800_USER_EXTENT_OFFSET h) 8 =
          take 8 (drop (nat (AT_D800_USER_EXTENT_OFFSET h)) (AT_D800 h))"
    if d: "EC_USER_CONTENT_OFFSET + contentSize < OS_META_CONTENT_OFFSET"
  proof
    let ?T7 = "butlast ?T"
    let ?w = "(0xD800 :: int, AT_D800 h, int (length (AT_D800 h)))"
    have E: "?E = []" using d by (simp add: extent_writes_def)
    have split: "?T @ ?E @ ?C @ ?S = ?T7 @ ?w # (?C @ ?S)"
      by (simp add: E template_writes_def)
    from region_after_writes [OF run [unfolded split] _ _ later_CS [OF L(1,2) A(2,3)]] L
    show "region ?b (0xD800 + AT_D800_META_EXTENT_OFFSET h) 8 =
          take 8 (drop (nat (AT_D800_META_EXTENT_OFFSET h)) (AT_D800 h))"
      by simp
    from region_after_writes [OF run [unfolded split] _ _ later_CS [OF L(3,4) A(4,5)]] L
    show "region ?b (0xD800 + AT_D800_USER_EXTENT_OFFSET h) 8 =
          take 8 (drop (nat (AT_D800_USER_EXTENT_OFFSET h)) (AT_D800 h))"
      by simp
  qed
  from reloc dflt a_user b_meta b_user
  show ?thesis by blast
qed

lemma os_offsets_in_buffer:
  assumes "build_ami_ci_cdrom h tmNow vol content contentSize = Inr img"
  shows "0 \<le> osMetaOffset contentSize" "osMetaOffset contentSize < 2 ^ 32"
    "0 \<le> osUserOffset contentSize" "osUserOffset contentSize < 2 ^ 32"
proof -
  let ?ws = "template_writes h @ extent_writes h contentSize @
             content_writes content contentSize @ size_writes h contentSize"
  from assms have run: "memcpy_all (\<lambda>_. 0) ?ws = Inr (bytes img)"
    by (auto simp: build_ami_ci_cdrom_def split: if_splits sum.splits)
  have "(osMetaOffset contentSize, bytes_of META_DATA_CONTENT, metaDataContentSize) \<in> set ?ws"
    "(osUserOffset contentSize, content, contentSize) \<in> set ?ws"
    by (simp_all add: content_writes_def)
  from memcpy_all_ok [OF run this(1)] memcpy_all_ok [OF run this(2)]
  show "0 \<le> osMetaOffset contentSize" "osMetaOffset contentSize < 2 ^ 32"
    "0 \<le> osUserOffset contentSize" "osUserOffset contentSize < 2 ^ 32"
    by (simp_all add: CONTEXTISO_CDROM_SIZE_def)
qed

lemma sector_of:
  assumes "0 \<le> x" "x < 2 ^ 32" "x mod 2048 = 0"
  shows "both_endian (isosetl (x div 2048)) = Some (x div 2048)" "2048 * (x div 2048) = x"
proof -
  have "0 \<le> x div 2048" "x div 2048 < 2 ^ 32"
    using assms by simp_all
  then show "both_endian (isosetl (x div 2048)) = Some (x div 2048)"
    by (rule both_endian_isosetl)
  from assms(3) show "2048 * (x div 2048) = x"
    by (simp add: mod_eq_0_iff_dvd)
qed

text \<open>
  Claim C2. For every payload length: if \<open>0xF000\<close> plus the length reaches \<open>0xF800\<close>, the
  metadata offset of the second convention is the least multiple of 2048 above the end of
  the first convention's user-data, and its user-data offset is the least multiple of
  2048 above the end of its metadata; otherwise the offsets are \<open>0xF800\<close> and \<open>0x10000\<close>.
  Whenever the builder returns an image, for a header that satisfies \<open>layout_ok\<close>: in the
  first case the two extent fields of the last directory table hold what \<^verbatim>\<open>isosetl\<close>
  stores for these offsets divided by 2048, so that either half of a field reads as the
  sector number and 2048 times that number is the offset, and in the second case they
  hold what the template has there; and in both cases the image holds the payload at the first convention's
  user-data offset, the metadata at the second convention's metadata offset and the
  payload again at its user-data offset, so none of the three regions overlaps another.
\<close>

theorem relocation_rule:
  "(OS_META_CONTENT_OFFSET \<le> EC_USER_CONTENT_OFFSET + contentSize \<longrightarrow>
      osMetaOffset contentSize mod 2048 = 0 \<and>
      EC_USER_CONTENT_OFFSET + contentSize + 1 \<le> osMetaOffset contentSize \<and>
      osMetaOffset contentSize < EC_USER_CONTENT_OFFSET + contentSize + 1 + 2048 \<and>
      osUserOffset contentSize mod 2048 = 0 \<and>
      osMetaOffset contentSize + metaDataContentSize + 1 \<le> osUserOffset contentSize \<and>
      osUserOffset contentSize < osMetaOffset contentSize + metaDataContentSize + 1 + 2048) \<and>
   (EC_USER_CONTENT_OFFSET + contentSize < OS_META_CONTENT_OFFSET \<longrightarrow>
      osMetaOffset contentSize = 0xF800 \<and> osUserOffset contentSize = 0x10000) \<and>
   (layout_ok h \<and> build_ami_ci_cdrom h tmNow vol content contentSize = Inr img \<longrightarrow>
      (OS_META_CONTENT_OFFSET \<le> EC_USER_CONTENT_OFFSET + contentSize \<longrightarrow>
         region (bytes img) (0xD800 + AT_D800_META_EXTENT_OFFSET h) 8 =
           isosetl (osMetaOffset contentSize div 2048) \<and>
         region (bytes img) (0xD800 + AT_D800_USER_EXTENT_OFFSET h) 8 =
           isosetl (osUserOffset contentSize div 2048) \<and>
         both_endian (region (bytes img) (0xD800 + AT_D800_META_EXTENT_OFFSET h) 8) =
           Some (osMetaOffset contentSize div 2048) \<and>
         both_endian (region (bytes img) (0xD800 + AT_D800_USER_EXTENT_OFFSET h) 8) =
           Some (osUserOffset contentSize div 2048) \<and>
         2048 * (osMetaOffset contentSize div 2048) = osMetaOffset contentSize \<and>
         2048 * (osUserOffset contentSize div 2048) = osUserOffset contentSize) \<and>
      (EC_USER_CONTENT_OFFSET + contentSize < OS_META_CONTENT_OFFSET \<longrightarrow>
         region (bytes img) (0xD800 + AT_D800_META_EXTENT_OFFSET h) 8 =
           take 8 (drop (nat (AT_D800_META_EXTENT_OFFSET h)) (AT_D800 h)) \<and>
         region (bytes img) (0xD800 + AT_D800_USER_EXTENT_OFFSET h) 8 =
           take 8 (drop (nat (AT_D800_USER_EXTENT_OFFSET h)) (AT_D800 h))) \<and>
      region (bytes img) EC_USER_CONTENT_OFFSET (nat contentSize) = take (nat contentSize) content \<and>
      region (bytes img) (osMetaOffset contentSize) (nat metaDataContentSize) =
        bytes_of META_DATA_CONTENT \<and>
      region (bytes img) (osUserOffset contentSize) (nat contentSize) =
        take (nat contentSize) content)"
proof (intro conjI impI)
  assume r: "OS_META_CONTENT_OFFSET \<le> EC_USER_CONTENT_OFFSET + contentSize"
  from os_offsets_relocated [OF r]
  show "osMetaOffset contentSize mod 2048 = 0"
    and "EC_USER_CONTENT_OFFSET + contentSize + 1 \<le> osMetaOffset contentSize"
    and "osMetaOffset contentSize < EC_USER_CONTENT_OFFSET + contentSize + 1 + 2048"
    and "osUserOffset contentSize mod 2048 = 0"
    and "osMetaOffset contentSize + metaDataContentSize + 1 \<le> osUserOffset contentSize"
    and "osUserOffset contentSize < osMetaOffset contentSize + metaDataContentSize + 1 + 2048"
    by simp_all
next
  assume d: "EC_USER_CONTENT_OFFSET + contentSize < OS_META_CONTENT_OFFSET"
  from os_offsets_default [OF d]
  show "osMetaOffset contentSize = 0xF800" and "osUserOffset contentSize = 0x10000"
    by simp_all
next
  assume "layout_ok h \<and> build_ami_ci_cdrom h tmNow vol content contentSize = Inr img"
  then have b: "layout_ok h" "build_ami_ci_cdrom h tmNow vol content contentSize = Inr img"
    by simp_all
  note rb = relocation_bytes [OF b]
  {
    assume r: "OS_META_CONTENT_OFFSET \<le> EC_USER_CONTENT_OFFSET + contentSize"
    with rb show m: "region (bytes img) (0xD800 + AT_D800_META_EXTENT_OFFSET h) 8 =
        isosetl (osMetaOffset contentSize div 2048)"
      and u: "region (bytes img) (0xD800 + AT_D800_USER_EXTENT_OFFSET h) 8 =
        isosetl (osUserOffset contentSize div 2048)"
      by simp_all
    note ib = os_offsets_in_buffer [OF b(2)]
    note al = os_offsets_relocated(1,4) [OF r]
    from sector_of [OF ib(1,2) al(1)]
    show "both_endian (region (bytes img) (0xD800 + AT_D800_META_EXTENT_OFFSET h) 8) =
        Some (osMetaOffset contentSize div 2048)"
      and "2048 * (osMetaOffset contentSize div 2048) = osMetaOffset contentSize"
      by (simp_all only: m)
    from sector_of [OF ib(3,4) al(2)]
    show "both_endian (region (bytes img) (0xD800 + AT_D800_USER_EXTENT_OFFSET h) 8) =
        Some (osUserOffset contentSize div 2048)"
      and "2048 * (osUserOffset contentSize div 2048) = osUserOffset contentSize"
      by (simp_all only: u)
  }
  {
    assume "EC_USER_CONTENT_OFFSET + contentSize < OS_META_CONTENT_OFFSET"
    with rb show "region (bytes img) (0xD800 + AT_D800_META_EXTENT_OFFSET h) 8 =
        take 8 (drop (nat (AT_D800_META_EXTENT_OFFSET h)) (AT_D800 h))"
      and "region (bytes img) (0xD800 + AT_D800_USER_EXTENT_OFFSET h) 8 =
        take 8 (drop (nat (AT_D800_USER_EXTENT_OFFSET h)) (AT_D800 h))"
      by simp_all
  }
  from rb show "region (bytes img) EC_USER_CONTENT_OFFSET (nat contentSize) = take (nat contentSize) content"
    and "region (bytes img) (osMetaOffset contentSize) (nat metaDataContentSize) =
        bytes_of META_DATA_CONTENT"
    and "region (bytes img) (osUserOffset contentSize) (nat contentSize) = take (nat contentSize) content"
    by simp_all
qed

theorem relocation_rule_witness:
  "layout_ok blank_iso9660_h \<and>
   isl (build_ami_ci_cdrom blank_iso9660_h
          \<lparr>tm_year = 113, tm_mon = 0, tm_mday = 15, tm_hour = 10, tm_min = 30, tm_sec = 0\<rparr>
          ''V'' (replicate 3000 0x41) 3000) = False \<and>
   OS_META_CONTENT_OFFSET \<le> EC_USER_CONTENT_OFFSET + 3000 \<and>
   osMetaOffset 3000 = 0x10000 \<and>
   osUserOffset 3000 = 0x10800 \<and>
   region (bytes (projr (build_ami_ci_cdrom blank_iso9660_h
          \<lparr>tm_year = 113, tm_mon = 0, tm_mday = 15, tm_hour = 10, tm_min = 30, tm_sec = 0\<rparr>
          ''V'' (replicate 3000 0x41) 3000))) (0xD800 + 70) 8 = [32, 0, 0, 0, 0, 0, 0, 32] \<and>
   region (bytes (projr (build_ami_ci_cdrom blank_iso9660_h
          \<lparr>tm_year = 113, tm_mon = 0, tm_mday = 15, tm_hour = 10, tm_min = 30, tm_sec = 0\<rparr>
          ''V'' (replicate 3000 0x41) 3000))) (0xD800 + 120) 8 = [33, 0, 0, 0, 0, 0, 0, 33] \<and>
   both_endian (region (bytes (projr (build_ami_ci_cdrom blank_iso9660_h
          \<lparr>tm_year = 113, tm_mon = 0, tm_mday = 15, tm_hour = 10, tm_min = 30, tm_sec = 0\<rparr>
          ''V'' (replicate 3000 0x41) 3000))) (0xD800 + 70) 8) = Some 32 \<and>
   both_endian (region (bytes (projr (build_ami_ci_cdrom blank_iso9660_h
          \<lparr>tm_year = 113, tm_mon = 0, tm_mday = 15, tm_hour = 10, tm_min = 30, tm_sec = 0\<rparr>
          ''V'' (replicate 3000 0x41) 3000))) (0xD800 + 120) 8) = Some 33 \<and>
   isl (build_ami_ci_cdrom blank_iso9660_h
          \<lparr>tm_year = 113, tm_mon = 0, tm_mday = 15, tm_hour = 10, tm_min = 30, tm_sec = 0\<rparr>
          ''V'' (replicate 100 0x41) 100) = False \<and>
   EC_USER_CONTENT_OFFSET + 100 < OS_META_CONTENT_OFFSET \<and>
   region (bytes (projr (build_ami_ci_cdrom blank_iso9660_h
          \<lparr>tm_year = 113, tm_mon = 0, tm_mday = 15, tm_hour = 10, tm_min = 30, tm_sec = 0\<rparr>
          ''V'' (replicate 100 0x41) 100))) (0xD800 + 70) 8 = replicate 8 0"
proof -
  let ?t = "\<lparr>tm_year = 113, tm_mon = 0, tm_mday = 15, tm_hour = 10, tm_min = 30, tm_sec = 0\<rparr>"
  have lay: "layout_ok blank_iso9660_h"
    by (simp add: layout_ok_def field_in_def apart_def blank_iso9660_h_def)
  have "\<exists>img. build_ami_ci_cdrom blank_iso9660_h ?t ''V'' (replicate 3000 0x41) 3000 = Inr img"
    by (simp add: eval_defs)
  then obtain img1 where b1: "build_ami_ci_cdrom blank_iso9660_h ?t ''V'' (replicate 3000 0x41) 3000 = Inr img1"
    by blast
  have "\<exists>img. build_ami_ci_cdrom blank_iso9660_h ?t ''V'' (replicate 100 0x41) 100 = Inr img"
    by (simp add: eval_defs)
  then obtain img2 where b2: "build_ami_ci_cdrom blank_iso9660_h ?t ''V'' (replicate 100 0x41) 100 = Inr img2"
    by blast
  have r: "OS_META_CONTENT_OFFSET \<le> EC_USER_CONTENT_OFFSET + 3000"
    and d: "EC_USER_CONTENT_OFFSET + 100 < OS_META_CONTENT_OFFSET"
    by (simp_all add: offset_defs)
  have o: "osMetaOffset 3000 = 0x10000" "osUserOffset 3000 = 0x10800"
    by (simp_all add: osMetaOffset_def osUserOffset_def offset_defs align2k_eq sizes)
  have ext: "AT_D800_META_EXTENT_OFFSET blank_iso9660_h = 70"
    "AT_D800_USER_EXTENT_OFFSET blank_iso9660_h = 120" "AT_D800 blank_iso9660_h = replicate 256 0"
    by (simp_all add: blank_iso9660_h_def)
  have i: "isosetl 32 = [32, 0, 0, 0, 0, 0, 0, 32]" "isosetl 33 = [33, 0, 0, 0, 0, 0, 0, 33]"
    by (simp_all add: isosetl_def)
  have j: "both_endian [32, 0, 0, 0, 0, 0, 0, 32] = Some 32"
    "both_endian [33, 0, 0, 0, 0, 0, 0, 33] = Some 33"
    by (simp_all add: both_endian_def le32_def be32_def)
  from relocation_rule [of 3000 blank_iso9660_h ?t "''V''" "replicate 3000 0x41" img1]
    relocation_rule [of 100 blank_iso9660_h ?t "''V''" "replicate 100 0x41" img2] lay r d o
  show ?thesis
    by (simp add: b1 b2 ext i j)
qed

subsection \<open>The capacity of the buffer\<close>

lemma simple_lDataSize_le: "simple_lDataSize sz \<le> CONTEXTISO_CDROM_SIZE - CONTENTS_OFFSET"
  by (simp add: simple_lDataSize_def)

text \<open>
  Claim C1 at a failing input. For a payload of 200000 bytes the combined content exceeds
  the data region and \<open>lDataSize\<close> is cut to its size, 309248, but that value only
  feeds the volume size: the copies still use the full payload length, and the second
  copy of the payload, at offset 264192, runs past the 358400 bytes of the buffer. A
  payload of 150000 bytes does the same at offset 215040 with \<open>lDataSize\<close> not even cut.
\<close>

theorem build_ami_ci_cdrom_overruns:
  "ami_lDataSize 200000 = CONTEXTISO_CDROM_SIZE - CONTENTS_OFFSET \<and>
   build_ami_ci_cdrom blank_iso9660_h 
       \<lparr>tm_year = 113, tm_mon = 0, tm_mday = 15, tm_hour = 10, tm_min = 30, tm_sec = 0\<rparr>
       ''V'' (replicate 200000 0x41) 200000
     = Inl (BufferOverrun 264192 200000) \<and>
   ami_lDataSize 150000 = 300599 \<and>
   build_ami_ci_cdrom blank_iso9660_h 
       \<lparr>tm_year = 113, tm_mon = 0, tm_mday = 15, tm_hour = 10, tm_min = 30, tm_sec = 0\<rparr>
       ''V'' (replicate 150000 0x41) 150000
     = Inl (BufferOverrun 215040 150000)"
  by (simp add: eval_defs ami_lDataSize_def to_int_def)

subsection \<open>The date of the primary descriptor\<close>

text \<open>
  Claim C9 at a failing input. On 15 January 2013 at 10:30:00 UTC, \<^verbatim>\<open>gmtime\<close> returns
  \<open>tm_year = 113\<close> and \<open>tm_mon = 0\<close>; both builders print \<open>tm_mon\<close> as it is, so the
  three dates of the descriptor read \<open>2013 00 15 10 30 00\<close>, with month \<open>00\<close> where the
  calendar month is \<open>01\<close>.
\<close>

theorem builders_print_month_from_zero:
  "map_sum id (\<lambda>c. (creation_date (primary c), modification_date (primary c),
                     effective_date (primary c)))
     (build_ami_ci_cdrom blank_iso9660_h 
       \<lparr>tm_year = 113, tm_mon = 0, tm_mday = 15, tm_hour = 10, tm_min = 30, tm_sec = 0\<rparr>
       ''V'' [] 0)
   = Inr (bytes_of ''20130015103000000'', bytes_of ''20130015103000000'',
          bytes_of ''20130015103000000'') \<and>
   map_sum id (\<lambda>c. (creation_date (primary c), modification_date (primary c),
                     effective_date (primary c)))
     (build_simple_cdrom blank_iso9660_h 
       \<lparr>tm_year = 113, tm_mon = 0, tm_mday = 15, tm_hour = 10, tm_min = 30, tm_sec = 0\<rparr>
       ''V'' ''context.sh'' [] 0)
   = Inr (bytes_of ''20130015103000000'', bytes_of ''20130015103000000'',
          bytes_of ''20130015103000000'')"
  by (simp add: eval_defs)

end
